theory Spec2Isabelle
  imports Main "HOL-Library.Multiset"
begin

section \<open>Worker pool executor (testplan/runners/pools/base.py)\<close>

subsection \<open>Python values, exceptions and the collaborators outside base.py\<close>

text \<open>
  The exception classes the module raises or catches. \<open>KeyboardInterrupt\<close> and
  \<open>SystemExit\<close> derive from \<open>BaseException\<close> only, the others from \<open>Exception\<close>;
  all of them are instances of \<open>BaseException\<close>.
\<close>

datatype exn =
    IndexError
  | KeyError
  | ValueError
  | TypeError
  | AttributeError
  | RuntimeError
  | KeyboardInterrupt
  | SystemExit

fun isinstance_BaseException :: "exn \<Rightarrow> bool" where
  "isinstance_BaseException e = True"

text \<open>
  Modelled from the spec: what the reporting sink reads of a Runnable's result
  (section 6), a report with a name and a passed flag; \<open>entity.RunnableResult\<close> is
  not part of base.py. An attribute the report object lacks is \<open>None\<close>; the flag
  says whether \<open>passed\<close> is \<open>True\<close>. A \<open>RunnableResult\<close> carries its \<open>report\<close>
  attribute when it has one.
\<close>

datatype report = Report "string option" "bool option"

datatype pyobj = PyNone | PyInt int | PyStr string | RunnableResult "report option"

type_synonym uid = string

text \<open>Worker index: the option schema is \<open>Or(int, str)\<close>.\<close>

datatype index = IdxInt int | IdxStr string

text \<open>Values of \<open>time.time()\<close>; they are only stored, never computed with.\<close>

type_synonym timestamp = int

text \<open>
  Modelled from the spec: the target a task materializes to (section 3: a Runnable,
  a plain callable, or an object with \<open>run()\<close>); \<open>entity.Runnable\<close> is not part
  of base.py. A Runnable carries its \<open>parent\<close> and \<open>cfg.parent\<close> attributes and
  the outcome of \<open>run()\<close>, which may depend on them. \<open>PlainObject\<close> is an object that
  is neither a Runnable nor callable; its optional component is the outcome of its
  \<open>run\<close> method, when it has one.
\<close>

datatype target =
    Runnable "index option" "index option" "index option \<Rightarrow> index option \<Rightarrow> exn + pyobj"
  | Callable "exn + pyobj"
  | PlainObject "(exn + pyobj) option"

text \<open>
  Modelled from the spec: \<open>Task\<close> (imported from \<open>.tasks\<close>) is an opaque descriptor
  with a uid and one operation \<open>materialize()\<close>, whose outcome is a target or an exception.
\<close>

record task =
  task_uid :: uid
  materialize :: "exn + target"

text \<open>
  The \<open>reason\<close> of a failing result. The texts are built by \<open>format_trace\<close> and by
  formatting pool and task objects, both outside base.py; the constructor records
  which text it is and from what it is built.
\<close>

datatype reason =
    FormatTrace exn
  | TaskDiscarded uid int
  | AbortDiscard uid

text \<open>Modelled from the spec: \<open>TaskResult\<close> is \<open>{task, result | None, status, reason?}\<close>.\<close>

record task_result =
  tr_task :: task
  tr_result :: "pyobj option"
  tr_status :: bool
  tr_reason :: "reason option"

text \<open>
  Modelled from the spec: a \<open>Message\<close> (imported from \<open>.communication\<close>) has a command
  and data (section 4.1); \<open>Message_make\<close> is its \<open>make\<close> method.
\<close>

datatype cmd =
    ConfigRequest | ConfigSending | TaskPullRequest | TaskSending | TaskResults
  | Heartbeat | SetupFailed | Ack | Stop

datatype payload =
    NoData
  | IntData int
  | TaskData "task list"
  | ResultData "task_result list"
  | TimeData timestamp
  | StrData string

record message =
  msg_cmd :: cmd
  msg_data :: payload

definition Message_make :: "cmd \<Rightarrow> payload \<Rightarrow> message" where
  "Message_make c d = \<lparr>msg_cmd = c, msg_data = d\<rparr>"

subsection \<open>Transport\<close>

record transport =
  requests :: "message list"
  responses :: "message list"
  active :: bool

definition Transport_init :: transport where
  "Transport_init = \<lparr>requests = [], responses = [], active = True\<rparr>"

definition send :: "transport \<Rightarrow> message \<Rightarrow> transport" where
  "send t m = t\<lparr>requests := requests t @ [m]\<rparr>"

text \<open>
  \<open>receive\<close> loops while the transport is active: \<open>responses.pop()\<close> takes the last
  element of the list; on an empty list it sleeps and tries again. Nothing in the
  loop changes the transport, so on an active transport with no response the loop
  does not return (the value \<open>None\<close> of the outer option). When the transport is
  not active the method falls off the loop and returns Python's \<open>None\<close>.
\<close>

partial_function (option) receive :: "transport \<Rightarrow> (message option \<times> transport) option" where
  "receive t =
     (if active t then
        (if responses t = [] then receive t
         else Some (Some (last (responses t)), t\<lparr>responses := butlast (responses t)\<rparr>))
      else Some (None, t))"

text \<open>\<open>accept\<close> is \<open>self.requests.pop()\<close>: it raises \<open>IndexError\<close> on an empty list.\<close>

definition accept :: "transport \<Rightarrow> (exn + message) \<times> transport" where
  "accept t =
     (if requests t = [] then (Inl IndexError, t)
      else (Inr (last (requests t)), t\<lparr>requests := butlast (requests t)\<rparr>))"

definition respond :: "transport \<Rightarrow> message \<Rightarrow> transport" where
  "respond t m = t\<lparr>responses := responses t @ [m]\<rparr>"

subsection \<open>Worker\<close>

text \<open>
  \<open>w_active\<close> is the \<open>active\<close> property a worker inherits from \<open>entity.Resource\<close>.
\<close>

record worker =
  w_index :: index
  w_transport :: transport
  last_heartbeat :: "timestamp option"
  assigned :: "uid set"
  requesting :: int
  w_active :: bool

definition Worker_init :: "index \<Rightarrow> worker" where
  "Worker_init idx =
     \<lparr>w_index = idx, w_transport = Transport_init, last_heartbeat = None,
      assigned = {}, requesting = 0, w_active = True\<rparr>"

definition Worker_respond :: "worker \<Rightarrow> message \<Rightarrow> worker" where
  "Worker_respond self msg = self\<lparr>w_transport := respond (w_transport self) msg\<rparr>"

text \<open>The body of the \<open>try\<close> block of \<open>Worker.execute\<close>.\<close>

definition run_target :: "worker \<Rightarrow> task \<Rightarrow> exn + pyobj" where
  "run_target self t =
     (case materialize t of
        Inl e \<Rightarrow> Inl e
      | Inr (Runnable parent cfg_parent run) \<Rightarrow>
          run (if parent = None then Some (w_index self) else parent)
              (if cfg_parent = None then Some (w_index self) else cfg_parent)
      | Inr (Callable outcome) \<Rightarrow> outcome
      | Inr (PlainObject None) \<Rightarrow> Inl AttributeError
      | Inr (PlainObject (Some outcome)) \<Rightarrow> outcome)"

text \<open>
  \<open>execute\<close>: the handler is \<open>except BaseException\<close>; an exception that is not an
  instance of it would leave the method (\<open>Inl\<close>).
\<close>

definition execute :: "worker \<Rightarrow> task \<Rightarrow> exn + task_result" where
  "execute self t =
     (case run_target self t of
        Inl exc \<Rightarrow>
          (if isinstance_BaseException exc
           then Inr \<lparr>tr_task = t, tr_result = None, tr_status = False,
                     tr_reason = Some (FormatTrace exc)\<rparr>
           else Inl exc)
      | Inr result \<Rightarrow>
          Inr \<lparr>tr_task = t, tr_result = Some result, tr_status = True, tr_reason = None\<rparr>)"

subsection \<open>Round-robin connection manager\<close>

text \<open>
  Worker objects are shared between the pool and its connection manager; they live in a
  store indexed by the worker's index, and \<open>cm_workers\<close> holds the references.
\<close>

type_synonym store = "index \<Rightarrow> worker"

record conn_manager =
  cm_workers :: "index list"
  current :: int

definition RoundRobinConnManager_init :: conn_manager where
  "RoundRobinConnManager_init = \<lparr>cm_workers = [], current = 1\<rparr>"

text \<open>Python list indexing: a negative index counts from the end.\<close>

definition py_index :: "int \<Rightarrow> nat \<Rightarrow> exn + nat" where
  "py_index i n =
     (let j = (if i < 0 then i + int n else i)
      in if 0 \<le> j \<and> j < int n then Inr (nat j) else Inl IndexError)"

text \<open>The position of \<open>self._workers\<close> that one call of \<open>accept\<close> reads.\<close>

definition polled :: "conn_manager \<Rightarrow> exn + nat" where
  "polled cm =
     py_index (current cm mod int (length (cm_workers cm)) - 1) (length (cm_workers cm))"

text \<open>
  \<open>RoundRobinConnManager.accept\<close>. \<open>IndexError\<close> is caught, and the \<open>return\<close> in the
  \<open>finally\<close> clause discards any other exception, so the method always returns.
\<close>

definition RoundRobin_accept ::
  "store \<Rightarrow> conn_manager \<Rightarrow> message option \<times> store \<times> conn_manager" where
  "RoundRobin_accept ws cm =
     (if cm_workers cm = [] then (None, ws, cm)
      else
        (case polled cm of
           Inl e \<Rightarrow> (None, ws, cm\<lparr>current := current cm + 1\<rparr>)
         | Inr idx \<Rightarrow>
             (let w = cm_workers cm ! idx;
                  (r, t) = accept (w_transport (ws w));
                  ws' = ws(w := (ws w)\<lparr>w_transport := t\<rparr>)
              in (case r of Inl e \<Rightarrow> None | Inr m \<Rightarrow> Some m,
                  ws', cm\<lparr>current := current cm + 1\<rparr>))))"

text \<open>
  \<open>k\<close> consecutive calls of \<open>accept\<close>: the positions polled, in call order, and the
  final store and manager.
\<close>

fun accept_calls :: "nat \<Rightarrow> store \<Rightarrow> conn_manager \<Rightarrow> (exn + nat) list \<times> store \<times> conn_manager" where
  "accept_calls 0 ws cm = ([], ws, cm)"
| "accept_calls (Suc k) ws cm =
     (case RoundRobin_accept ws cm of
        (m, ws', cm') \<Rightarrow>
          (case accept_calls k ws' cm' of
             (ps, ws'', cm'') \<Rightarrow> (polled cm # ps, ws'', cm'')))"

subsection \<open>Pool\<close>

text \<open>
  Modelled from the spec: the status tags of the entity framework (section 3).
\<close>

datatype status = INITIAL | STARTING | STARTED | STOPPING | STOPPED | ABORTED

record pool_cfg =
  name :: string
  size :: nat
  task_retries_limit :: int

text \<open>
  The fields of a pool. \<open>input\<close>, \<open>ongoing\<close>, \<open>results\<close> and \<open>status\<close> are inherited
  from \<open>Executor\<close>. The reschedule predicate receives the pool and the task result;
  it is given the pool's fields.
\<close>

record pool_state =
  cfg :: pool_cfg
  status :: status
  input :: "uid \<rightharpoonup> task"
  ongoing :: "uid list"
  unassigned :: "uid list"
  results :: "uid \<rightharpoonup> task_result"
  task_assign_cnt :: "uid \<rightharpoonup> int"
  workers :: store
  workers_last_result :: "index \<rightharpoonup> timestamp"

record pool = pool_state +
  should_reschedule :: "pool_state \<Rightarrow> task_result \<Rightarrow> bool"

definition default_check_reschedule :: "pool_state \<Rightarrow> task_result \<Rightarrow> bool" where
  "default_check_reschedule p task_result = False"

text \<open>
  \<open>Pool.__init__\<close>; the status a new executor starts in is set by the entity framework
  and is a parameter here. Each index has its worker object in the store.
\<close>

definition Pool_init :: "pool_cfg \<Rightarrow> status \<Rightarrow> pool" where
  "Pool_init c st =
     \<lparr>cfg = c, status = st, input = Map.empty, ongoing = [], unassigned = [],
      results = Map.empty, task_assign_cnt = Map.empty, workers = Worker_init,
      workers_last_result = Map.empty, should_reschedule = default_check_reschedule\<rparr>"

definition set_reschedule_check :: "(pool_state \<Rightarrow> task_result \<Rightarrow> bool) \<Rightarrow> pool \<Rightarrow> pool" where
  "set_reschedule_check check_reschedule self = self\<lparr>should_reschedule := check_reschedule\<rparr>"

text \<open>What \<open>add\<close> may be handed: a \<open>Task\<close> instance or some other object.\<close>

datatype entity = TaskEntity task | OtherEntity pyobj

text \<open>
  Modelled from the spec: \<open>Executor.add\<close> (in \<open>testplan.runners.base\<close>) stores the
  task in \<open>input[uid]\<close> and appends the uid to \<open>ongoing\<close>.
\<close>

definition Executor_add :: "task \<Rightarrow> uid \<Rightarrow> pool \<Rightarrow> pool" where
  "Executor_add t u self = self\<lparr>input := (input self)(u \<mapsto> t), ongoing := ongoing self @ [u]\<rparr>"

text \<open>
  A method that returns nothing gives the exception it raised, if any, and the pool
  as the method left it: a raise does not undo the updates made before it.
\<close>

definition add :: "entity \<Rightarrow> uid \<Rightarrow> pool \<Rightarrow> exn option \<times> pool" where
  "add e u self =
     (case e of
        OtherEntity x \<Rightarrow> (Some ValueError, self)
      | TaskEntity t \<Rightarrow>
          (let s1 = Executor_add t u self
           in (None, s1\<lparr>unassigned := unassigned s1 @ [u]\<rparr>)))"

definition upd_worker :: "index \<Rightarrow> (worker \<Rightarrow> worker) \<Rightarrow> pool \<Rightarrow> pool" where
  "upd_worker w f self = self\<lparr>workers := (workers self)(w := f (workers self w))\<rparr>"

text \<open>
  \<open>_discard_task\<close>: the log line reads \<open>_input[uid]\<close> (\<open>KeyError\<close> when absent), the
  failing result is written, then \<open>ongoing.remove(uid)\<close> raises \<open>ValueError\<close> when the
  uid is not in the list.
\<close>

definition discard_task :: "uid \<Rightarrow> pool \<Rightarrow> exn option \<times> pool" where
  "discard_task u self =
     (case input self u of
        None \<Rightarrow> (Some KeyError, self)
      | Some t \<Rightarrow>
          (let s1 = self\<lparr>results := (results self)(u \<mapsto>
                      \<lparr>tr_task = t, tr_result = None, tr_status = False,
                       tr_reason = Some (TaskDiscarded u (task_retries_limit (cfg self)))\<rparr>)\<rparr>
           in if u \<in> set (ongoing s1)
              then (None, s1\<lparr>ongoing := remove1 u (ongoing s1)\<rparr>)
              else (Some ValueError, s1)))"

text \<open>
  The \<open>for _ in range(request.data)\<close> loop of \<open>_handle_taskpull_request\<close>, with the
  number of iterations left, the batch so far and the pool. \<open>unassigned.pop(0)\<close> on an
  empty list ends the loop.
\<close>

fun pull_loop :: "index \<Rightarrow> nat \<Rightarrow> task list \<Rightarrow> pool \<Rightarrow> (exn + task list) \<times> pool" where
  "pull_loop w 0 tasks self = (Inr tasks, self)"
| "pull_loop w (Suc k) tasks self =
     (case unassigned self of
        [] \<Rightarrow> (Inr tasks, self)
      | u # rest \<Rightarrow>
          (let s1 = self\<lparr>unassigned := rest\<rparr>;
               s2 = (if task_assign_cnt s1 u = None
                     then s1\<lparr>task_assign_cnt := (task_assign_cnt s1)(u \<mapsto> 0)\<rparr> else s1);
               c = (case task_assign_cnt s2 u of None \<Rightarrow> 0 | Some n \<Rightarrow> n)
           in if c \<ge> task_retries_limit (cfg s2) then
                (case input s2 u of
                   None \<Rightarrow> (Inl KeyError, s2)
                 | Some t \<Rightarrow>
                     (case discard_task u s2 of
                        (Some e, s3) \<Rightarrow> (Inl e, s3)
                      | (None, s3) \<Rightarrow> pull_loop w k tasks s3))
              else
                (let s3 = s2\<lparr>task_assign_cnt := (task_assign_cnt s2)(u \<mapsto> c + 1)\<rparr>
                 in case input s3 u of
                      None \<Rightarrow> (Inl KeyError, s3)
                    | Some t \<Rightarrow>
                        pull_loop w k (tasks @ [t])
                          (upd_worker w (\<lambda>wk. wk\<lparr>assigned := insert u (assigned wk)\<rparr>) s3))))"

text \<open>
  \<open>_handle_taskpull_request(worker, request, response)\<close> with \<open>request.data = n\<close>;
  \<open>range(n)\<close> is empty for \<open>n \<le> 0\<close>.
\<close>

definition handle_taskpull_request :: "index \<Rightarrow> int \<Rightarrow> pool \<Rightarrow> exn option \<times> pool" where
  "handle_taskpull_request w n self =
     (let ack = (\<lambda>s. upd_worker w
                   (\<lambda>wk. Worker_respond (wk\<lparr>requesting := n\<rparr>) (Message_make Ack NoData)) s)
      in if status self = STARTED then
           (case pull_loop w (nat n) [] self of
              (Inl e, s1) \<Rightarrow> (Some e, s1)
            | (Inr tasks, s1) \<Rightarrow>
                if tasks \<noteq> [] then
                  (None, upd_worker w
                     (\<lambda>wk. (Worker_respond wk (Message_make TaskSending (TaskData tasks)))
                              \<lparr>requesting := n - int (length tasks)\<rparr>) s1)
                else (None, ack s1))
         else (None, ack self))"

text \<open>
  The start of one iteration of \<open>_handle_taskresults\<close>: the uid leaves
  \<open>worker.assigned\<close> and the time is stored if the worker has no entry yet.
  \<open>now\<close> is what \<open>time.time()\<close> returns; it is called at most once per message,
  since after the first call the worker has its entry.
\<close>

definition deassign :: "index \<Rightarrow> timestamp \<Rightarrow> uid \<Rightarrow> pool \<Rightarrow> pool" where
  "deassign w now u self =
     (let s1 = upd_worker w (\<lambda>wk. wk\<lparr>assigned := assigned wk - {u}\<rparr>) self
      in if workers_last_result s1 w = None
         then s1\<lparr>workers_last_result := (workers_last_result s1)(w \<mapsto> now)\<rparr>
         else s1)"

text \<open>
  \<open>_print_test_result\<close> only logs. It returns at once unless the result is a
  \<open>RunnableResult\<close> with a \<open>report\<close> attribute; then it reads \<open>report.name\<close> and
  \<open>report.passed\<close>, and reading an attribute the report lacks raises
  \<open>AttributeError\<close>.
\<close>

definition print_test_result :: "task_result \<Rightarrow> exn option" where
  "print_test_result task_result =
     (case tr_result task_result of
        Some (RunnableResult (Some (Report nm ps))) \<Rightarrow>
          (case nm of
             None \<Rightarrow> Some AttributeError
           | Some n \<Rightarrow> (case ps of None \<Rightarrow> Some AttributeError | Some b \<Rightarrow> None))
      | _ \<Rightarrow> None)"

text \<open>
  The end of an iteration that records the result: the result is printed, written
  to \<open>results[uid]\<close>, and the uid removed from \<open>ongoing\<close>.
\<close>

definition record_result :: "uid \<Rightarrow> task_result \<Rightarrow> pool \<Rightarrow> exn option \<times> pool" where
  "record_result u r self =
     (case print_test_result r of
        Some e \<Rightarrow> (Some e, self)
      | None \<Rightarrow>
          (let s1 = self\<lparr>results := (results self)(u \<mapsto> r)\<rparr>
           in if u \<in> set (ongoing s1)
              then (None, s1\<lparr>ongoing := remove1 u (ongoing s1)\<rparr>)
              else (Some ValueError, s1)))"

text \<open>
  One iteration of the loop of \<open>_handle_taskresults\<close>. \<open>assigned.remove(uid)\<close> raises
  \<open>KeyError\<close> when the uid is not in the set, as do \<open>task_assign_cnt[uid]\<close> and the
  \<open>_input[uid]\<close> of the log line.
\<close>

definition results_step :: "index \<Rightarrow> timestamp \<Rightarrow> task_result \<Rightarrow> pool \<Rightarrow> exn option \<times> pool" where
  "results_step w now r self =
     (let u = task_uid (tr_task r)
      in if u \<notin> assigned (workers self w) then (Some KeyError, self)
         else
           (let s2 = deassign w now u self
            in if should_reschedule s2 (pool_state.truncate s2) r then
                 (case task_assign_cnt s2 u of
                    None \<Rightarrow> (Some KeyError, s2)
                  | Some c \<Rightarrow>
                      if c \<ge> task_retries_limit (cfg s2) then
                        (case input s2 u of
                           None \<Rightarrow> (Some KeyError, s2)
                         | Some t \<Rightarrow> record_result u r s2)
                      else (None, s2\<lparr>unassigned := unassigned s2 @ [u]\<rparr>))
               else record_result u r s2))"

fun results_loop :: "index \<Rightarrow> timestamp \<Rightarrow> task_result list \<Rightarrow> pool \<Rightarrow> exn option \<times> pool" where
  "results_loop w now [] self = (None, self)"
| "results_loop w now (r # rs) self =
     (case results_step w now r self of
        (Some e, s1) \<Rightarrow> (Some e, s1)
      | (None, s1) \<Rightarrow> results_loop w now rs s1)"

definition handle_taskresults ::
  "index \<Rightarrow> task_result list \<Rightarrow> timestamp \<Rightarrow> pool \<Rightarrow> exn option \<times> pool" where
  "handle_taskresults w data now self =
     (case results_loop w now data self of
        (Some e, s1) \<Rightarrow> (Some e, s1)
      | (None, s1) \<Rightarrow> (None, upd_worker w (\<lambda>wk. Worker_respond wk (Message_make Ack NoData)) s1))"

text \<open>
  The calls that change a pool here: a submission, and the two requests the
  dispatcher hands to the handlers above. The dispatcher logs an exception of a
  handler and goes on with the pool as the handler left it.
\<close>

datatype step =
    Add entity uid
  | Pull index int
  | Results index "task_result list" timestamp

fun pool_step :: "step \<Rightarrow> pool \<Rightarrow> pool" where
  "pool_step (Add e u) self = snd (add e u self)"
| "pool_step (Pull w n) self = snd (handle_taskpull_request w n self)"
| "pool_step (Results w d now) self = snd (handle_taskresults w d now self)"

definition pool_run :: "step list \<Rightarrow> pool \<Rightarrow> pool" where
  "pool_run steps self = fold pool_step steps self"

subsection \<open>Conditions on a pool\<close>

text \<open>
  Every queued uid has its task in \<open>input\<close> and an occurrence of its own in \<open>ongoing\<close>.
\<close>

definition queued_ok :: "pool \<Rightarrow> bool" where
  "queued_ok s \<longleftrightarrow>
     mset (unassigned s) \<subseteq># mset (ongoing s) \<and> set (unassigned s) \<subseteq> dom (input s)"

text \<open>
  The results of a message are for distinct uids, each assigned to the worker, still
  ongoing, counted and with its task in \<open>input\<close>, and each result prints without
  an error.
\<close>

definition results_ok :: "index \<Rightarrow> task_result list \<Rightarrow> pool \<Rightarrow> bool" where
  "results_ok w data s \<longleftrightarrow>
     distinct (map (\<lambda>r. task_uid (tr_task r)) data)
     \<and> (\<forall>r \<in> set data.
           task_uid (tr_task r) \<in> assigned (workers s w)
           \<and> task_uid (tr_task r) \<in> set (ongoing s)
           \<and> task_uid (tr_task r) \<in> dom (task_assign_cnt s)
           \<and> task_uid (tr_task r) \<in> dom (input s)
           \<and> print_test_result r = None)"

text \<open>No assign count is above the retries limit.\<close>

definition cnt_bounded :: "pool \<Rightarrow> bool" where
  "cnt_bounded s \<longleftrightarrow>
     (\<forall>u c. task_assign_cnt s u = Some c \<longrightarrow> c \<le> task_retries_limit (cfg s))"

subsection \<open>A small pool\<close>

text \<open>
  The values the properties below are exercised on: a task whose target returns 42
  (scenario S1 of the specification), a configuration, a worker index, and the
  started pool after that task was added under the uid \<open>a\<close>.
\<close>

abbreviation task_a :: task where
  "task_a \<equiv> \<lparr>task_uid = ''a'', materialize = Inr (Callable (Inr (PyInt 42)))\<rparr>"

abbreviation cfg3 :: pool_cfg where
  "cfg3 \<equiv> \<lparr>name = ''pool'', size = 2, task_retries_limit = 3\<rparr>"

abbreviation w0 :: index where
  "w0 \<equiv> IdxStr ''0''"

abbreviation result_a :: task_result where
  "result_a \<equiv> \<lparr>tr_task = task_a, tr_result = Some (PyInt 42), tr_status = True, tr_reason = None\<rparr>"

abbreviation task_b :: task where
  "task_b \<equiv> \<lparr>task_uid = ''b'', materialize = Inr (Callable (Inr (PyInt 42)))\<rparr>"

abbreviation result_b :: task_result where
  "result_b \<equiv> \<lparr>tr_task = task_b, tr_result = Some (PyInt 42), tr_status = True, tr_reason = None\<rparr>"

abbreviation pool_a :: pool where
  "pool_a \<equiv> snd (add (TaskEntity task_a) ''a'' (Pool_init cfg3 STARTED))"

abbreviation pool_a1 :: pool where
  "pool_a1 \<equiv> snd (handle_taskpull_request w0 2 pool_a)"

abbreviation cfg_neg :: pool_cfg where
  "cfg_neg \<equiv> \<lparr>name = ''pool'', size = 2, task_retries_limit = - 1\<rparr>"

section \<open>Properties\<close>

subsection \<open>Transport\<close>

lemma receive_after_two_responds:
  "active t \<Longrightarrow> receive (respond (respond t m1) m2) = Some (Some m2, respond t m1)"
  by (subst receive.simps) (simp add: respond_def butlast_append)

text \<open>
  C2 (the code departs from the claim). The claim: a worker's \<open>receive()\<close> returns
  responses in the order of the pool's \<open>respond()\<close> calls. On a new transport the pool
  responds \<open>Ack\<close> and then \<open>Stop\<close>; the first \<open>receive()\<close> returns \<open>Stop\<close>, the later
  one, and leaves \<open>Ack\<close> behind: \<open>responses.pop()\<close> takes from the end the responses
  are appended to.
\<close>

theorem transport_receive_lifo:
  "receive (respond (respond Transport_init (Message_make Ack NoData)) (Message_make Stop NoData))
     = Some (Some (Message_make Stop NoData), respond Transport_init (Message_make Ack NoData))"
  by (subst receive.simps) (simp add: respond_def Transport_init_def Message_make_def)

text \<open>
  C8, as claimed, fails: on a transport with no pending request \<open>accept\<close> raises
  \<open>IndexError\<close>; it does not return \<open>None\<close>.
\<close>

theorem accept_empty_raises:
  "fst (accept Transport_init) = Inl IndexError"
  by (simp add: accept_def Transport_init_def)

text \<open>
  C8, amended: \<open>Transport.accept\<close> never blocks. With no pending request it raises
  \<open>IndexError\<close> and leaves the transport as it was; with pending requests it returns
  one of them and removes it from the pending ones. The round-robin connection
  manager catches the error: when the worker it polls has no pending request, its
  own \<open>accept\<close> returns \<open>None\<close>.
\<close>

theorem accept_nonblocking:
  "(requests t = [] \<longrightarrow> accept t = (Inl IndexError, t))
   \<and> (requests t \<noteq> [] \<longrightarrow>
        (\<exists>m. fst (accept t) = Inr m \<and> m \<in> set (requests t)
             \<and> mset (requests (snd (accept t))) = mset (requests t) - {#m#}
             \<and> responses (snd (accept t)) = responses t \<and> active (snd (accept t)) = active t))
   \<and> (cm_workers cm \<noteq> [] \<longrightarrow>
        (\<forall>i. polled cm = Inr i \<longrightarrow> requests (w_transport (ws (cm_workers cm ! i))) = [] \<longrightarrow>
           fst (RoundRobin_accept ws cm) = None))"
proof (intro conjI impI allI)
  assume "requests t = []"
  then show "accept t = (Inl IndexError, t)" by (simp add: accept_def)
next
  assume ne: "requests t \<noteq> []"
  then have "mset (requests t) = mset (butlast (requests t) @ [last (requests t)])" by simp
  also have "\<dots> = mset (butlast (requests t)) + {#last (requests t)#}" by simp
  finally have "mset (requests t) = mset (butlast (requests t)) + {#last (requests t)#}" .
  then have "mset (butlast (requests t)) = mset (requests t) - {#last (requests t)#}"
    by simp
  with ne show "\<exists>m. fst (accept t) = Inr m \<and> m \<in> set (requests t)
             \<and> mset (requests (snd (accept t))) = mset (requests t) - {#m#}
             \<and> responses (snd (accept t)) = responses t \<and> active (snd (accept t)) = active t"
    by (simp add: accept_def)
next
  fix i
  assume "cm_workers cm \<noteq> []" "polled cm = Inr i"
    "requests (w_transport (ws (cm_workers cm ! i))) = []"
  then show "fst (RoundRobin_accept ws cm) = None"
    by (simp add: accept_def RoundRobin_accept_def Let_def)
qed

theorem accept_nonblocking_witness:
  "requests Transport_init = []
   \<and> accept Transport_init = (Inl IndexError, Transport_init)
   \<and> requests (send Transport_init (Message_make Heartbeat NoData)) \<noteq> []
   \<and> fst (accept (send Transport_init (Message_make Heartbeat NoData)))
       = Inr (Message_make Heartbeat NoData)
   \<and> cm_workers \<lparr>cm_workers = [w0], current = 1\<rparr> \<noteq> []
   \<and> polled \<lparr>cm_workers = [w0], current = 1\<rparr> = Inr 0
   \<and> requests (w_transport (Worker_init (cm_workers \<lparr>cm_workers = [w0], current = 1\<rparr> ! 0))) = []
   \<and> fst (RoundRobin_accept Worker_init \<lparr>cm_workers = [w0], current = 1\<rparr>) = None"
proof -
  let ?cm = "\<lparr>cm_workers = [w0], current = 1\<rparr>"
  let ?t = "send Transport_init (Message_make Heartbeat NoData)"
  have h1: "requests Transport_init = []"
    by (simp add: Transport_init_def)
  have h2: "cm_workers ?cm \<noteq> []"
    by simp
  have h3: "polled ?cm = Inr 0"
    by (simp add: polled_def py_index_def)
  have h4: "requests (w_transport (Worker_init (cm_workers ?cm ! 0))) = []"
    by (simp add: Worker_init_def Transport_init_def)
  have h5: "requests ?t = [Message_make Heartbeat NoData]"
    by (simp add: send_def Transport_init_def)
  then have h5': "requests ?t \<noteq> []" by simp
  note inst = accept_nonblocking [of Transport_init ?cm Worker_init]
  from inst h1 have c1: "accept Transport_init = (Inl IndexError, Transport_init)"
    by blast
  from inst h2 h3 h4 have c2: "fst (RoundRobin_accept Worker_init ?cm) = None"
    by blast
  from accept_nonblocking [of ?t] h5' obtain m where
    "fst (accept ?t) = Inr m" "m \<in> set (requests ?t)" by blast
  with h5 have c3: "fst (accept ?t) = Inr (Message_make Heartbeat NoData)" by simp
  from h1 h2 h3 h4 h5' c1 c2 c3 show ?thesis
    by blast
qed

subsection \<open>Worker\<close>

text \<open>
  C3: for every worker and task \<open>execute\<close> returns a task result and raises
  nothing. When \<open>materialize()\<close> raises, when the Runnable's \<open>run()\<close> (called after the
  worker was adopted as a missing parent), the callable or the object's \<open>run()\<close>
  raises, or when the object has no \<open>run\<close>, the result has status false, no result
  value and the formatted trace of that same exception as its reason, whatever the
  exception's class (\<open>KeyboardInterrupt\<close> and \<open>SystemExit\<close> included). Otherwise
  the result has status true, no reason, and carries the value the invocation
  returned.
\<close>

theorem execute_never_raises:
  "(\<exists>r. execute self t = Inr r)
   \<and> (\<forall>exc. materialize t = Inl exc \<longrightarrow>
         execute self t = Inr \<lparr>tr_task = t, tr_result = None, tr_status = False,
                                tr_reason = Some (FormatTrace exc)\<rparr>)
   \<and> (\<forall>parent cfg_parent run. materialize t = Inr (Runnable parent cfg_parent run) \<longrightarrow>
         (\<forall>exc. run (if parent = None then Some (w_index self) else parent)
                    (if cfg_parent = None then Some (w_index self) else cfg_parent) = Inl exc \<longrightarrow>
            execute self t = Inr \<lparr>tr_task = t, tr_result = None, tr_status = False,
                                   tr_reason = Some (FormatTrace exc)\<rparr>)
         \<and> (\<forall>v. run (if parent = None then Some (w_index self) else parent)
                    (if cfg_parent = None then Some (w_index self) else cfg_parent) = Inr v \<longrightarrow>
            execute self t = Inr \<lparr>tr_task = t, tr_result = Some v, tr_status = True,
                                   tr_reason = None\<rparr>))
   \<and> (\<forall>exc. materialize t = Inr (Callable (Inl exc)) \<longrightarrow>
         execute self t = Inr \<lparr>tr_task = t, tr_result = None, tr_status = False,
                                tr_reason = Some (FormatTrace exc)\<rparr>)
   \<and> (\<forall>v. materialize t = Inr (Callable (Inr v)) \<longrightarrow>
         execute self t = Inr \<lparr>tr_task = t, tr_result = Some v, tr_status = True,
                                tr_reason = None\<rparr>)
   \<and> (materialize t = Inr (PlainObject None) \<longrightarrow>
         execute self t = Inr \<lparr>tr_task = t, tr_result = None, tr_status = False,
                                tr_reason = Some (FormatTrace AttributeError)\<rparr>)
   \<and> (\<forall>exc. materialize t = Inr (PlainObject (Some (Inl exc))) \<longrightarrow>
         execute self t = Inr \<lparr>tr_task = t, tr_result = None, tr_status = False,
                                tr_reason = Some (FormatTrace exc)\<rparr>)
   \<and> (\<forall>v. materialize t = Inr (PlainObject (Some (Inr v))) \<longrightarrow>
         execute self t = Inr \<lparr>tr_task = t, tr_result = Some v, tr_status = True,
                                tr_reason = None\<rparr>)"
proof (intro conjI allI impI)
  show "\<exists>r. execute self t = Inr r"
    by (simp add: execute_def split: sum.splits)
qed (simp_all add: execute_def run_target_def)

theorem execute_never_raises_witness:
  "materialize task_a = Inr (Callable (Inr (PyInt 42)))
   \<and> execute (Worker_init w0) task_a = Inr result_a
   \<and> execute (Worker_init w0) \<lparr>task_uid = ''m'', materialize = Inl KeyboardInterrupt\<rparr>
       = Inr \<lparr>tr_task = \<lparr>task_uid = ''m'', materialize = Inl KeyboardInterrupt\<rparr>,
              tr_result = None, tr_status = False,
              tr_reason = Some (FormatTrace KeyboardInterrupt)\<rparr>
   \<and> execute (Worker_init w0) \<lparr>task_uid = ''c'', materialize = Inr (Callable (Inl SystemExit))\<rparr>
       = Inr \<lparr>tr_task = \<lparr>task_uid = ''c'', materialize = Inr (Callable (Inl SystemExit))\<rparr>,
              tr_result = None, tr_status = False, tr_reason = Some (FormatTrace SystemExit)\<rparr>
   \<and> execute (Worker_init w0) \<lparr>task_uid = ''o'', materialize = Inr (PlainObject None)\<rparr>
       = Inr \<lparr>tr_task = \<lparr>task_uid = ''o'', materialize = Inr (PlainObject None)\<rparr>,
              tr_result = None, tr_status = False, tr_reason = Some (FormatTrace AttributeError)\<rparr>
   \<and> execute (Worker_init w0)
         \<lparr>task_uid = ''p'', materialize = Inr (PlainObject (Some (Inl RuntimeError)))\<rparr>
       = Inr \<lparr>tr_task = \<lparr>task_uid = ''p'', materialize = Inr (PlainObject (Some (Inl RuntimeError)))\<rparr>,
              tr_result = None, tr_status = False, tr_reason = Some (FormatTrace RuntimeError)\<rparr>
   \<and> execute (Worker_init w0)
         \<lparr>task_uid = ''q'', materialize = Inr (PlainObject (Some (Inr (PyInt 7))))\<rparr>
       = Inr \<lparr>tr_task = \<lparr>task_uid = ''q'', materialize = Inr (PlainObject (Some (Inr (PyInt 7))))\<rparr>,
              tr_result = Some (PyInt 7), tr_status = True, tr_reason = None\<rparr>
   \<and> execute (Worker_init w0)
         \<lparr>task_uid = ''r'', materialize = Inr (Runnable None None
             (\<lambda>p c. if p = Some w0 \<and> c = Some w0 then Inr (PyInt 1) else Inl RuntimeError))\<rparr>
       = Inr \<lparr>tr_task = \<lparr>task_uid = ''r'', materialize = Inr (Runnable None None
                 (\<lambda>p c. if p = Some w0 \<and> c = Some w0 then Inr (PyInt 1) else Inl RuntimeError))\<rparr>,
              tr_result = Some (PyInt 1), tr_status = True, tr_reason = None\<rparr>
   \<and> execute (Worker_init w0)
         \<lparr>task_uid = ''s'', materialize = Inr (Runnable (Some (IdxStr ''9'')) None
             (\<lambda>p c. if p = Some w0 \<and> c = Some w0 then Inr (PyInt 1) else Inl RuntimeError))\<rparr>
       = Inr \<lparr>tr_task = \<lparr>task_uid = ''s'', materialize = Inr (Runnable (Some (IdxStr ''9'')) None
                 (\<lambda>p c. if p = Some w0 \<and> c = Some w0 then Inr (PyInt 1) else Inl RuntimeError))\<rparr>,
              tr_result = None, tr_status = False, tr_reason = Some (FormatTrace RuntimeError)\<rparr>"
proof -
  let ?w = "Worker_init w0"
  let ?run = "\<lambda>p c. if p = Some w0 \<and> c = Some w0 then Inr (PyInt 1) else Inl RuntimeError"
  let ?m = "\<lparr>task_uid = ''m'', materialize = Inl KeyboardInterrupt\<rparr>"
  let ?c = "\<lparr>task_uid = ''c'', materialize = Inr (Callable (Inl SystemExit))\<rparr>"
  let ?o = "\<lparr>task_uid = ''o'', materialize = Inr (PlainObject None)\<rparr>"
  let ?p = "\<lparr>task_uid = ''p'', materialize = Inr (PlainObject (Some (Inl RuntimeError)))\<rparr>"
  let ?q = "\<lparr>task_uid = ''q'', materialize = Inr (PlainObject (Some (Inr (PyInt 7))))\<rparr>"
  let ?r = "\<lparr>task_uid = ''r'', materialize = Inr (Runnable None None ?run)\<rparr>"
  let ?s = "\<lparr>task_uid = ''s'', materialize = Inr (Runnable (Some (IdxStr ''9'')) None ?run)\<rparr>"
  have wi: "w_index ?w = w0" by (simp add: Worker_init_def)
  have h0: "materialize task_a = Inr (Callable (Inr (PyInt 42)))" by simp
  from execute_never_raises [of ?w task_a] h0
  have c0: "execute ?w task_a = Inr result_a" by blast
  have "materialize ?m = Inl KeyboardInterrupt" by simp
  with execute_never_raises [of ?w ?m]
  have c1: "execute ?w ?m = Inr \<lparr>tr_task = ?m, tr_result = None, tr_status = False,
              tr_reason = Some (FormatTrace KeyboardInterrupt)\<rparr>" by blast
  have "materialize ?c = Inr (Callable (Inl SystemExit))" by simp
  with execute_never_raises [of ?w ?c]
  have c2: "execute ?w ?c = Inr \<lparr>tr_task = ?c, tr_result = None, tr_status = False,
              tr_reason = Some (FormatTrace SystemExit)\<rparr>" by blast
  have "materialize ?o = Inr (PlainObject None)" by simp
  with execute_never_raises [of ?w ?o]
  have c3: "execute ?w ?o = Inr \<lparr>tr_task = ?o, tr_result = None, tr_status = False,
              tr_reason = Some (FormatTrace AttributeError)\<rparr>" by blast
  have "materialize ?p = Inr (PlainObject (Some (Inl RuntimeError)))" by simp
  with execute_never_raises [of ?w ?p]
  have c4: "execute ?w ?p = Inr \<lparr>tr_task = ?p, tr_result = None, tr_status = False,
              tr_reason = Some (FormatTrace RuntimeError)\<rparr>" by blast
  have "materialize ?q = Inr (PlainObject (Some (Inr (PyInt 7))))" by simp
  with execute_never_raises [of ?w ?q]
  have c5: "execute ?w ?q = Inr \<lparr>tr_task = ?q, tr_result = Some (PyInt 7), tr_status = True,
              tr_reason = None\<rparr>" by blast
  have mr: "materialize ?r = Inr (Runnable None None ?run)" by simp
  have rr: "?run (if (None::index option) = None then Some (w_index ?w) else None)
                 (if (None::index option) = None then Some (w_index ?w) else None) = Inr (PyInt 1)"
    by (simp add: wi)
  from execute_never_raises [of ?w ?r] mr rr
  have c6: "execute ?w ?r = Inr \<lparr>tr_task = ?r, tr_result = Some (PyInt 1), tr_status = True,
              tr_reason = None\<rparr>" by blast
  have ms: "materialize ?s = Inr (Runnable (Some (IdxStr ''9'')) None ?run)" by simp
  have rs: "?run (if Some (IdxStr ''9'') = None then Some (w_index ?w) else Some (IdxStr ''9''))
                 (if (None::index option) = None then Some (w_index ?w) else None) = Inl RuntimeError"
    by (simp add: wi)
  from execute_never_raises [of ?w ?s] ms rs
  have c7: "execute ?w ?s = Inr \<lparr>tr_task = ?s, tr_result = None, tr_status = False,
              tr_reason = Some (FormatTrace RuntimeError)\<rparr>" by blast
  from h0 c0 c1 c2 c3 c4 c5 c6 c7 show ?thesis by blast
qed

subsection \<open>Submission\<close>

text \<open>
  C7: handed an object that is not a task, \<open>add\<close> rejects it with an error and
  leaves the pool unchanged. The rejection is the error kind the specification
  calls TypeError (section 7 names kinds, not classes); the class raised is
  \<open>ValueError\<close>. Handed a task, \<open>add\<close> calls \<open>Executor.add\<close> and appends the uid to
  \<open>unassigned\<close>: the task is stored in \<open>input[uid]\<close> and the uid appended to \<open>ongoing\<close>
  and to \<open>unassigned\<close>.
\<close>

theorem add_spec:
  "add (OtherEntity x) u self = (Some ValueError, self)
   \<and> add (TaskEntity t) u self =
       (None, (Executor_add t u self)\<lparr>unassigned := unassigned (Executor_add t u self) @ [u]\<rparr>)
   \<and> add (TaskEntity t) u self =
       (None, self\<lparr>input := (input self)(u \<mapsto> t), ongoing := ongoing self @ [u],
                   unassigned := unassigned self @ [u]\<rparr>)"
  by (simp add: add_def Executor_add_def)

subsection \<open>Round-robin connection manager\<close>

lemma py_index_round_robin:
  assumes "0 < N"
  shows "py_index (c mod int N - 1) N = Inr (nat ((c - 1) mod int N))"
proof -
  define m where "m = c mod int N"
  have m: "0 \<le> m" "m < int N" using assms by (simp_all add: m_def)
  have "(c - 1) mod int N = (m - 1) mod int N"
    unfolding m_def by (simp add: mod_diff_left_eq)
  also have "\<dots> = (if m = 0 then int N - 1 else m - 1)"
  proof (cases "m = 0")
    case True
    then show ?thesis using assms by (simp add: zmod_minus1)
  next
    case False
    then have "0 \<le> m - 1" "m - 1 < int N" using m by linarith+
    then show ?thesis using False by (simp add: mod_pos_pos_trivial)
  qed
  finally have e: "(c - 1) mod int N = (if m = 0 then int N - 1 else m - 1)" .
  have "py_index (m - 1) N = Inr (nat (if m = 0 then int N - 1 else m - 1))"
    using m by (auto simp: py_index_def Let_def)
  then show ?thesis using e by (simp add: m_def)
qed

lemma polled_pos:
  "cm_workers cm \<noteq> [] \<Longrightarrow>
     polled cm = Inr (nat ((current cm - 1) mod int (length (cm_workers cm))))"
  unfolding polled_def by (rule py_index_round_robin) simp

lemma RoundRobin_accept_cursor:
  "cm_workers cm \<noteq> [] \<Longrightarrow>
     snd (snd (RoundRobin_accept ws cm)) = cm\<lparr>current := current cm + 1\<rparr>"
  by (simp add: RoundRobin_accept_def Let_def split: sum.splits prod.splits)

lemma accept_calls_polled:
  "cm_workers cm \<noteq> [] \<Longrightarrow>
     fst (accept_calls k ws cm) = map (\<lambda>j. polled (cm\<lparr>current := current cm + int j\<rparr>)) [0..<k]
     \<and> snd (snd (accept_calls k ws cm)) = cm\<lparr>current := current cm + int k\<rparr>"
proof (induction k arbitrary: ws cm)
  case 0
  then show ?case by simp
next
  case (Suc k)
  obtain m ws' cm' where a: "RoundRobin_accept ws cm = (m, ws', cm')"
    by (cases "RoundRobin_accept ws cm") auto
  with Suc.prems have cm': "cm' = cm\<lparr>current := current cm + 1\<rparr>"
    using RoundRobin_accept_cursor [of cm ws] by simp
  then have ne: "cm_workers cm' \<noteq> []" using Suc.prems by simp
  obtain ps ws'' cm'' where b: "accept_calls k ws' cm' = (ps, ws'', cm'')"
    by (cases "accept_calls k ws' cm'") auto
  from Suc.IH [OF ne, of ws'] b
  have ps: "ps = map (\<lambda>j. polled (cm'\<lparr>current := current cm' + int j\<rparr>)) [0..<k]"
    and fin: "cm'' = cm'\<lparr>current := current cm' + int k\<rparr>" by simp_all
  have "map (\<lambda>j. polled (cm\<lparr>current := current cm + int j\<rparr>)) [0..<Suc k]
        = polled cm # map (\<lambda>j. polled (cm\<lparr>current := current cm + int (Suc j)\<rparr>)) [0..<k]"
    by (simp only: map_upt_Suc) simp
  also have "\<dots> = polled cm # ps"
    by (simp add: ps cm' add.assoc)
  finally show ?case using a b fin cm' by (simp add: add.assoc)
qed

lemma rotation_mset:
  assumes "0 < N"
  shows "mset (map (\<lambda>j. nat ((c + int j) mod int N)) [0..<N]) = mset [0..<N]"
proof -
  let ?f = "\<lambda>j. nat ((c + int j) mod int N)"
  have inj: "inj_on ?f {0..<N}"
  proof (rule inj_onI)
    fix x y assume x: "x \<in> {0..<N}" and y: "y \<in> {0..<N}" and e: "?f x = ?f y"
    from e assms have "(c + int x) mod int N = (c + int y) mod int N"
      by (metis Euclidean_Rings.pos_mod_sign nat_int of_nat_0_less_iff int_nat_eq)
    then have "int x mod int N = int y mod int N"
      by (metis mod_add_cong mod_add_left_eq add_diff_cancel_left' mod_diff_cong)
    with x y show "x = y" by (simp add: mod_pos_pos_trivial)
  qed
  have sub: "?f ` {0..<N} \<subseteq> {0..<N}"
    using assms by (auto simp: nat_less_iff)
  have "card (?f ` {0..<N}) = N" using inj by (simp add: card_image)
  with sub have img: "?f ` {0..<N} = {0..<N}"
    by (simp add: card_subset_eq)
  have d: "distinct (map ?f [0..<N])" using inj by (simp add: distinct_map)
  have "mset (map ?f [0..<N]) = mset_set (set (map ?f [0..<N]))"
    by (rule mset_set_set [OF d, symmetric])
  also have "set (map ?f [0..<N]) = {0..<N}" using img by simp
  also have "mset_set {0..<N} = mset [0..<N]" by (rule mset_upt [symmetric])
  finally show ?thesis .
qed

text \<open>
  C6: with no registered worker \<open>accept\<close> returns \<open>None\<close> (and changes nothing). With
  \<open>N > 0\<close> workers it polls the transport of \<open>workers[(cursor mod N) - 1]\<close>, where
  index \<open>-1\<close> is the last worker, returns that transport's message if it had one and
  \<open>None\<close> otherwise, and advances the cursor by exactly one either way. Over \<open>N\<close>
  consecutive calls the positions polled are each of \<open>0, ..., N - 1\<close> exactly once, and
  the cursor has advanced by \<open>N\<close>.
\<close>

theorem round_robin_accept:
  "(cm_workers cm = [] \<longrightarrow> RoundRobin_accept ws cm = (None, ws, cm))
   \<and> (cm_workers cm \<noteq> [] \<longrightarrow>
        (let N = length (cm_workers cm);
             i = (if current cm mod int N = 0 then N - 1 else nat (current cm mod int N - 1));
             w = cm_workers cm ! i;
             r = accept (w_transport (ws w))
         in i < N \<and> polled cm = Inr i
            \<and> RoundRobin_accept ws cm =
                 (case fst r of Inl e \<Rightarrow> None | Inr m \<Rightarrow> Some m,
                  ws(w := (ws w)\<lparr>w_transport := snd r\<rparr>),
                  cm\<lparr>current := current cm + 1\<rparr>)
            \<and> mset (fst (accept_calls N ws cm)) = mset (map Inr [0..<N])
            \<and> current (snd (snd (accept_calls N ws cm))) = current cm + int N))"
proof (intro conjI impI)
  show "RoundRobin_accept ws cm = (None, ws, cm)" if "cm_workers cm = []"
    using that by (simp add: RoundRobin_accept_def)
next
  assume ne: "cm_workers cm \<noteq> []"
  define N where "N = length (cm_workers cm)"
  define i where "i = (if current cm mod int N = 0 then N - 1 else nat (current cm mod int N - 1))"
  have N: "0 < N" using ne by (simp add: N_def)
  have r: "0 \<le> current cm mod int N" "current cm mod int N < int N" using N by simp_all
  have iN: "i < N" using N r by (auto simp: i_def)
  have pi: "polled cm = Inr i"
    using N r by (auto simp: polled_def py_index_def Let_def i_def N_def [symmetric])
  have acc: "RoundRobin_accept ws cm =
       (case fst (accept (w_transport (ws (cm_workers cm ! i)))) of Inl e \<Rightarrow> None | Inr m \<Rightarrow> Some m,
        ws(cm_workers cm ! i := (ws (cm_workers cm ! i))\<lparr>w_transport := snd (accept (w_transport (ws (cm_workers cm ! i))))\<rparr>),
        cm\<lparr>current := current cm + 1\<rparr>)"
    using ne pi by (simp add: RoundRobin_accept_def Let_def split: prod.splits)
  have "fst (accept_calls N ws cm) = map (\<lambda>j. polled (cm\<lparr>current := current cm + int j\<rparr>)) [0..<N]"
    using accept_calls_polled [OF ne] by simp
  also have "\<dots> = map (\<lambda>j. Inr (nat ((current cm - 1 + int j) mod int N))) [0..<N]"
    using ne by (simp add: polled_pos N_def algebra_simps)
  also have "\<dots> = map Inr (map (\<lambda>j. nat ((current cm - 1 + int j) mod int N)) [0..<N])"
    by simp
  finally have "mset (fst (accept_calls N ws cm)) = mset (map Inr [0..<N])"
    using rotation_mset [OF N, of "current cm - 1"] by (metis mset_map)
  moreover have "current (snd (snd (accept_calls N ws cm))) = current cm + int N"
    using accept_calls_polled [OF ne, of N ws] by simp
  ultimately show "let N = length (cm_workers cm);
             i = (if current cm mod int N = 0 then N - 1 else nat (current cm mod int N - 1));
             w = cm_workers cm ! i;
             r = accept (w_transport (ws w))
         in i < N \<and> polled cm = Inr i
            \<and> RoundRobin_accept ws cm =
                 (case fst r of Inl e \<Rightarrow> None | Inr m \<Rightarrow> Some m,
                  ws(w := (ws w)\<lparr>w_transport := snd r\<rparr>),
                  cm\<lparr>current := current cm + 1\<rparr>)
            \<and> mset (fst (accept_calls N ws cm)) = mset (map Inr [0..<N])
            \<and> current (snd (snd (accept_calls N ws cm))) = current cm + int N"
    using iN pi acc unfolding Let_def N_def [symmetric] i_def [symmetric] by simp
qed


theorem round_robin_accept_witness:
  "RoundRobin_accept Worker_init RoundRobinConnManager_init
     = (None, Worker_init, RoundRobinConnManager_init)
   \<and> polled \<lparr>cm_workers = [IdxStr ''0'', IdxStr ''1''], current = 1\<rparr> = Inr 0
   \<and> mset (fst (accept_calls 2 Worker_init \<lparr>cm_workers = [IdxStr ''0'', IdxStr ''1''], current = 1\<rparr>))
       = mset [Inr 0, Inr 1]
   \<and> current (snd (snd (accept_calls 2 Worker_init
         \<lparr>cm_workers = [IdxStr ''0'', IdxStr ''1''], current = 1\<rparr>))) = 3"
proof -
  let ?cm = "\<lparr>cm_workers = [IdxStr ''0'', IdxStr ''1''], current = 1\<rparr>"
  have e: "cm_workers RoundRobinConnManager_init = []"
    by (simp add: RoundRobinConnManager_init_def)
  from round_robin_accept [of RoundRobinConnManager_init Worker_init] e
  have c1: "RoundRobin_accept Worker_init RoundRobinConnManager_init
     = (None, Worker_init, RoundRobinConnManager_init)" by blast
  have ne: "cm_workers ?cm \<noteq> []" by simp
  have len: "length (cm_workers ?cm) = 2" by simp
  have up: "map Inr [0..<2] = [Inr 0, Inr (1::nat)]" by (simp add: numeral_2_eq_2)
  note inst = round_robin_accept [of ?cm Worker_init, THEN conjunct2, THEN mp, OF ne,
      unfolded Let_def]
  from inst have p: "polled ?cm =
      Inr (if current ?cm mod int (length (cm_workers ?cm)) = 0 then length (cm_workers ?cm) - 1
           else nat (current ?cm mod int (length (cm_workers ?cm)) - 1))"
    by blast
  from inst have m: "mset (fst (accept_calls (length (cm_workers ?cm)) Worker_init ?cm))
      = mset (map Inr [0..<length (cm_workers ?cm)])"
    by blast
  from inst have k: "current (snd (snd (accept_calls (length (cm_workers ?cm)) Worker_init ?cm)))
      = current ?cm + int (length (cm_workers ?cm))"
    by blast
  from p have p': "polled ?cm = Inr 0" by simp
  from m have m': "mset (fst (accept_calls 2 Worker_init ?cm)) = mset [Inr 0, Inr 1]"
    by (simp only: len up)
  from k have k': "current (snd (snd (accept_calls 2 Worker_init ?cm))) = 3"
    by (simp only: len) simp
  from p' m' k' have c2: "polled ?cm = Inr 0
     \<and> mset (fst (accept_calls 2 Worker_init ?cm)) = mset [Inr 0, Inr 1]
     \<and> current (snd (snd (accept_calls 2 Worker_init ?cm))) = 3"
    by blast
  from c1 c2 show ?thesis by blast
qed

subsection \<open>The TaskPullRequest handler\<close>

lemma upd_worker_simps [simp]:
  "cfg (upd_worker w f s) = cfg s"
  "status (upd_worker w f s) = status s"
  "input (upd_worker w f s) = input s"
  "ongoing (upd_worker w f s) = ongoing s"
  "unassigned (upd_worker w f s) = unassigned s"
  "results (upd_worker w f s) = results s"
  "task_assign_cnt (upd_worker w f s) = task_assign_cnt s"
  "workers_last_result (upd_worker w f s) = workers_last_result s"
  "should_reschedule (upd_worker w f s) = should_reschedule s"
  "workers (upd_worker w f s) = (workers s)(w := f (workers s w))"
  by (simp_all add: upd_worker_def)

lemma discard_task_frame:
  assumes "discard_task u s = (e, s')"
  shows "cfg s' = cfg s" "status s' = status s" "input s' = input s"
    "unassigned s' = unassigned s" "task_assign_cnt s' = task_assign_cnt s"
    "workers s' = workers s" "workers_last_result s' = workers_last_result s"
    "should_reschedule s' = should_reschedule s"
  using assms by (auto simp: discard_task_def Let_def split: option.splits if_splits)

lemma discard_task_ongoing:
  assumes "discard_task u s = (None, s')"
  shows "ongoing s' = remove1 u (ongoing s)" "u \<in> set (ongoing s)"
  using assms by (auto simp: discard_task_def Let_def split: option.splits if_splits)

lemma pull_loop_length:
  "pull_loop w k tasks s = (Inr ts, s') \<Longrightarrow> length ts \<le> length tasks + k"
proof (induction k arbitrary: tasks s)
  case 0
  then show ?case by simp
next
  case (Suc k)
  show ?case
  proof (cases "unassigned s")
    case Nil
    with Suc.prems show ?thesis by simp
  next
    case (Cons u rest)
    with Suc.prems show ?thesis
      by (auto simp: Let_def split: option.splits if_splits prod.splits dest!: Suc.IH)
  qed
qed


lemma pull_loop_invariant:
  assumes pop: "\<And>s u rest. I s \<Longrightarrow> unassigned s = u # rest \<Longrightarrow> I (s\<lparr>unassigned := rest\<rparr>)"
    and init: "\<And>s u. I s \<Longrightarrow> task_assign_cnt s u = None \<Longrightarrow>
                 I (s\<lparr>task_assign_cnt := (task_assign_cnt s)(u \<mapsto> 0)\<rparr>)"
    and discard: "\<And>s u e s'. I s \<Longrightarrow> discard_task u s = (e, s') \<Longrightarrow> I s'"
    and incr: "\<And>s u c. I s \<Longrightarrow> task_assign_cnt s u = Some c \<Longrightarrow>
                 c < task_retries_limit (cfg s) \<Longrightarrow>
                 I (s\<lparr>task_assign_cnt := (task_assign_cnt s)(u \<mapsto> c + 1)\<rparr>)"
    and assign: "\<And>s u. I s \<Longrightarrow>
                 I (upd_worker w (\<lambda>wk. wk\<lparr>assigned := insert u (assigned wk)\<rparr>) s)"
  shows "I s \<Longrightarrow> pull_loop w k tasks s = (r, s') \<Longrightarrow> I s'"
proof (induction k arbitrary: tasks s)
  case 0
  then show ?case by simp
next
  case (Suc k)
  show ?case
  proof (cases "unassigned s")
    case Nil
    with Suc.prems show ?thesis by simp
  next
    case (Cons u rest)
    let ?s1 = "s\<lparr>unassigned := rest\<rparr>"
    let ?s2 = "if task_assign_cnt ?s1 u = None
               then ?s1\<lparr>task_assign_cnt := (task_assign_cnt ?s1)(u \<mapsto> 0)\<rparr> else ?s1"
    have i1: "I ?s1" using pop [OF Suc.prems(1) Cons] .
    have i2: "I ?s2" using i1 init [of ?s1 u] by simp
    obtain c where c: "task_assign_cnt ?s2 u = Some c"
      by (cases "task_assign_cnt s u") auto
    show ?thesis
    proof (cases "c \<ge> task_retries_limit (cfg ?s2)")
      case True
      show ?thesis
      proof (cases "input ?s2 u")
        case None
        with True c Cons Suc.prems(2) have "s' = ?s2"
          by (auto simp: Let_def split: if_splits)
        with i2 show ?thesis by simp
      next
        case (Some t)
        obtain e s3 where d: "discard_task u ?s2 = (e, s3)"
          by (cases "discard_task u ?s2") auto
        have i3: "I s3" using discard [OF i2 d] .
        show ?thesis
        proof (cases e)
          case None
          with True c Cons Some d Suc.prems(2)
          have "pull_loop w k tasks s3 = (r, s')"
            by (auto simp: Let_def split: if_splits)
          from Suc.IH [OF i3 this] show ?thesis .
        next
          case (Some x)
          with True c Cons \<open>input ?s2 u = Some t\<close> d Suc.prems(2) have "s' = s3"
            by (auto simp: Let_def split: if_splits)
          with i3 show ?thesis by simp
        qed
      qed
    next
      case False
      let ?s3 = "?s2\<lparr>task_assign_cnt := (task_assign_cnt ?s2)(u \<mapsto> c + 1)\<rparr>"
      have i3: "I ?s3" using incr [OF i2 c] False by simp
      show ?thesis
      proof (cases "input ?s3 u")
        case None
        with False c Cons Suc.prems(2) have "s' = ?s3"
          by (auto simp: Let_def split: if_splits)
        with i3 show ?thesis by simp
      next
        case (Some t)
        let ?s4 = "upd_worker w (\<lambda>wk. wk\<lparr>assigned := insert u (assigned wk)\<rparr>) ?s3"
        have i4: "I ?s4" using assign [OF i3] .
        from False c Cons Some Suc.prems(2)
        have "pull_loop w k (tasks @ [t]) ?s4 = (r, s')"
          by (auto simp: Let_def split: if_splits)
        from Suc.IH [OF i4 this] show ?thesis .
      qed
    qed
  qed
qed

lemma pull_loop_frame:
  assumes "pull_loop w k tasks s = (r, s')"
  shows "cfg s' = cfg s \<and> status s' = status s \<and> input s' = input s
     \<and> workers_last_result s' = workers_last_result s
     \<and> should_reschedule s' = should_reschedule s
     \<and> (\<forall>v. w_transport (workers s' v) = w_transport (workers s v))
     \<and> (\<forall>v. requesting (workers s' v) = requesting (workers s v))"
proof -
  let ?I = "\<lambda>x. cfg x = cfg s \<and> status x = status s \<and> input x = input s
     \<and> workers_last_result x = workers_last_result s
     \<and> should_reschedule x = should_reschedule s
     \<and> (\<forall>v. w_transport (workers x v) = w_transport (workers s v))
     \<and> (\<forall>v. requesting (workers x v) = requesting (workers s v))"
  have "?I s'"
  proof (rule pull_loop_invariant [where I = ?I, OF _ _ _ _ _ _ assms])
    show "?I s" by simp
  next
    fix x u e x' assume "?I x" "discard_task u x = (e, x')"
    then show "?I x'" using discard_task_frame [of u x e x'] by simp
  qed simp_all
  then show ?thesis .
qed

lemma pull_loop_cnt_bounded:
  assumes "0 \<le> task_retries_limit (cfg s)" and "cnt_bounded s"
    and "pull_loop w k tasks s = (r, s')"
  shows "cnt_bounded s'"
proof -
  let ?I = "\<lambda>x. cnt_bounded x \<and> 0 \<le> task_retries_limit (cfg x)"
  have "?I s'"
  proof (rule pull_loop_invariant [where I = ?I, OF _ _ _ _ _ _ assms(3)])
    show "?I s" using assms(1,2) by simp
  next
    fix x u e x' assume "?I x" "discard_task u x = (e, x')"
    then show "?I x'" using discard_task_frame [of u x e x'] by (simp add: cnt_bounded_def)
  next
    fix x :: pool and u c
    assume "?I x" "task_assign_cnt x u = Some c" "c < task_retries_limit (cfg x)"
    then show "?I (x\<lparr>task_assign_cnt := (task_assign_cnt x)(u \<mapsto> c + 1)\<rparr>)"
      by (simp add: cnt_bounded_def)
  qed (simp_all add: cnt_bounded_def)
  then show ?thesis by simp
qed

lemma pull_loop_total:
  "queued_ok s \<Longrightarrow> \<exists>ts s'. pull_loop w k tasks s = (Inr ts, s')"
proof (induction k arbitrary: tasks s)
  case 0
  then show ?case by simp
next
  case (Suc k)
  show ?case
  proof (cases "unassigned s")
    case Nil
    then show ?thesis by simp
  next
    case (Cons u rest)
    from Suc.prems Cons have sub: "add_mset u (mset rest) \<subseteq># mset (ongoing s)"
      and uin: "u \<in> dom (input s)" and rin: "set rest \<subseteq> dom (input s)"
      by (auto simp: queued_ok_def)
    from sub have uon: "u \<in> set (ongoing s)"
      by (metis insert_subset_eq_iff set_mset_mset)
    from sub have rsub: "mset rest \<subseteq># mset (ongoing s)"
      by (metis mset_subset_eq_insertD subset_mset.less_imp_le)
    from sub have rsub': "mset rest \<subseteq># mset (remove1 u (ongoing s))"
      by (simp add: insert_subset_eq_iff subset_eq_diff_conv)
    obtain t where t: "input s u = Some t" using uin by auto
    let ?s1 = "s\<lparr>unassigned := rest\<rparr>"
    let ?s2 = "if task_assign_cnt ?s1 u = None
               then ?s1\<lparr>task_assign_cnt := (task_assign_cnt ?s1)(u \<mapsto> 0)\<rparr> else ?s1"
    obtain c where c: "task_assign_cnt ?s2 u = Some c"
      by (cases "task_assign_cnt s u") auto
    have f2: "input ?s2 = input s" "ongoing ?s2 = ongoing s" "unassigned ?s2 = rest"
      "results ?s2 = results s" by simp_all
    show ?thesis
    proof (cases "c \<ge> task_retries_limit (cfg ?s2)")
      case True
      let ?s3 = "(?s2\<lparr>results := (results ?s2)(u \<mapsto>
                      \<lparr>tr_task = t, tr_result = None, tr_status = False,
                       tr_reason = Some (TaskDiscarded u (task_retries_limit (cfg ?s2)))\<rparr>)\<rparr>)
                 \<lparr>ongoing := remove1 u (ongoing s)\<rparr>"
      have d: "discard_task u ?s2 = (None, ?s3)"
        using t uon by (simp add: discard_task_def Let_def)
      have q3: "queued_ok ?s3" using rsub' rin by (simp add: queued_ok_def)
      from Suc.IH [OF q3, of tasks] obtain ts s' where
        "pull_loop w k tasks ?s3 = (Inr ts, s')" by blast
      with True c Cons t d show ?thesis
        by (auto simp: Let_def split: if_splits)
    next
      case False
      let ?s3 = "?s2\<lparr>task_assign_cnt := (task_assign_cnt ?s2)(u \<mapsto> c + 1)\<rparr>"
      let ?s4 = "upd_worker w (\<lambda>wk. wk\<lparr>assigned := insert u (assigned wk)\<rparr>) ?s3"
      have q4: "queued_ok ?s4" using rsub rin by (simp add: queued_ok_def)
      from Suc.IH [OF q4, of "tasks @ [t]"] obtain ts s' where
        "pull_loop w k (tasks @ [t]) ?s4 = (Inr ts, s')" by blast
      with False c Cons t show ?thesis
        by (auto simp: Let_def split: if_splits)
    qed
  qed
qed

text \<open>
  C4: a \<open>TaskPullRequest(n)\<close> dispatches only when the pool is \<open>STARTED\<close>: in any other
  status the handler only sets \<open>worker.requesting = n\<close> and responds \<open>Ack\<close>. When the
  handler returns, with \<open>batch\<close> the tasks its loop collected: if the batch is not empty
  then \<open>1 \<le> len(batch) \<le> n\<close>, the response appended to the worker's transport is
  \<open>TaskSending(batch)\<close> and \<open>worker.requesting = n - len(batch)\<close>; if it is empty the
  response is \<open>Ack\<close> and \<open>worker.requesting = n\<close>. The handler does return (raises
  nothing) when every queued uid has its task in \<open>input\<close> and its occurrence in \<open>ongoing\<close>.
\<close>

theorem handle_taskpull_request_spec:
  "(status self \<noteq> STARTED \<longrightarrow>
      handle_taskpull_request w n self =
        (None, upd_worker w (\<lambda>wk. Worker_respond (wk\<lparr>requesting := n\<rparr>) (Message_make Ack NoData)) self))
   \<and> (\<forall>s'. handle_taskpull_request w n self = (None, s') \<longrightarrow>
        (\<exists>batch s1.
           (status self = STARTED \<longrightarrow> pull_loop w (nat n) [] self = (Inr batch, s1))
           \<and> (status self \<noteq> STARTED \<longrightarrow> batch = [] \<and> s1 = self)
           \<and> (batch \<noteq> [] \<longrightarrow>
                1 \<le> length batch \<and> int (length batch) \<le> n
                \<and> s' = upd_worker w
                     (\<lambda>wk. (Worker_respond wk (Message_make TaskSending (TaskData batch)))
                              \<lparr>requesting := n - int (length batch)\<rparr>) s1
                \<and> responses (w_transport (workers s' w)) =
                     responses (w_transport (workers self w)) @ [Message_make TaskSending (TaskData batch)]
                \<and> requesting (workers s' w) = n - int (length batch))
           \<and> (batch = [] \<longrightarrow>
                s' = upd_worker w (\<lambda>wk. Worker_respond (wk\<lparr>requesting := n\<rparr>) (Message_make Ack NoData)) s1
                \<and> responses (w_transport (workers s' w)) =
                     responses (w_transport (workers self w)) @ [Message_make Ack NoData]
                \<and> requesting (workers s' w) = n)))
   \<and> (queued_ok self \<longrightarrow> fst (handle_taskpull_request w n self) = None)"
proof (intro conjI impI allI)
  assume "status self \<noteq> STARTED"
  then show "handle_taskpull_request w n self =
        (None, upd_worker w (\<lambda>wk. Worker_respond (wk\<lparr>requesting := n\<rparr>) (Message_make Ack NoData)) self)"
    by (simp add: handle_taskpull_request_def Let_def)
next
  assume q: "queued_ok self"
  from pull_loop_total [OF q, of w "nat n" "[]"] obtain ts s1 where
    "pull_loop w (nat n) [] self = (Inr ts, s1)" by blast
  then show "fst (handle_taskpull_request w n self) = None"
    by (simp add: handle_taskpull_request_def Let_def)
next
  fix s' assume h: "handle_taskpull_request w n self = (None, s')"
  let ?ack = "\<lambda>s. upd_worker w (\<lambda>wk. Worker_respond (wk\<lparr>requesting := n\<rparr>) (Message_make Ack NoData)) s"
  let ?snd = "\<lambda>batch s. upd_worker w
                     (\<lambda>wk. (Worker_respond wk (Message_make TaskSending (TaskData batch)))
                              \<lparr>requesting := n - int (length batch)\<rparr>) s"
  let ?P = "\<lambda>batch s1.
           (status self = STARTED \<longrightarrow> pull_loop w (nat n) [] self = (Inr batch, s1))
           \<and> (status self \<noteq> STARTED \<longrightarrow> batch = [] \<and> s1 = self)
           \<and> (batch \<noteq> [] \<longrightarrow>
                1 \<le> length batch \<and> int (length batch) \<le> n
                \<and> s' = ?snd batch s1
                \<and> responses (w_transport (workers s' w)) =
                     responses (w_transport (workers self w)) @ [Message_make TaskSending (TaskData batch)]
                \<and> requesting (workers s' w) = n - int (length batch))
           \<and> (batch = [] \<longrightarrow>
                s' = ?ack s1
                \<and> responses (w_transport (workers s' w)) =
                     responses (w_transport (workers self w)) @ [Message_make Ack NoData]
                \<and> requesting (workers s' w) = n)"
  show "\<exists>batch s1. ?P batch s1"
  proof (cases "status self = STARTED")
    case False
    with h have "s' = ?ack self" by (simp add: handle_taskpull_request_def Let_def)
    with False have "?P [] self"
      by (simp add: Worker_respond_def respond_def)
    then show ?thesis by blast
  next
    case True
    obtain r s1 where p: "pull_loop w (nat n) [] self = (r, s1)"
      by (cases "pull_loop w (nat n) [] self") auto
    with h True obtain batch where r: "r = Inr batch"
      by (cases r) (auto simp: handle_taskpull_request_def Let_def)
    from pull_loop_frame [OF p] have tr: "w_transport (workers s1 w) = w_transport (workers self w)"
      by blast
    from pull_loop_length [OF p [unfolded r]] have len: "length batch \<le> nat n" by simp
    show ?thesis
    proof (cases "batch = []")
      case True
      with h \<open>status self = STARTED\<close> p r have "s' = ?ack s1"
        by (simp add: handle_taskpull_request_def Let_def)
      with True \<open>status self = STARTED\<close> p r tr have "?P batch s1"
        by (simp add: Worker_respond_def respond_def)
      then show ?thesis by blast
    next
      case False
      with h \<open>status self = STARTED\<close> p r have s': "s' = ?snd batch s1"
        by (simp add: handle_taskpull_request_def Let_def)
      from False have l1: "1 \<le> length batch" by (cases batch) auto
      with len have l2: "int (length batch) \<le> n" by linarith
      from s' False \<open>status self = STARTED\<close> p r tr l1 l2 have "?P batch s1"
        by (simp add: Worker_respond_def respond_def)
      then show ?thesis by blast
    qed
  qed
qed

lemma pool_a_pull:
  "fst (pull_loop w0 (nat 2) [] pool_a) = Inr [task_a]"
  by (simp add: numeral_2_eq_2 add_def Executor_add_def Pool_init_def Let_def)

theorem handle_taskpull_request_spec_witness:
  "status (Pool_init cfg3 STOPPING) \<noteq> STARTED
   \<and> handle_taskpull_request w0 2 (Pool_init cfg3 STOPPING) =
        (None, upd_worker w0 (\<lambda>wk. Worker_respond (wk\<lparr>requesting := 2\<rparr>) (Message_make Ack NoData))
                 (Pool_init cfg3 STOPPING))
   \<and> queued_ok pool_a
   \<and> fst (handle_taskpull_request w0 2 pool_a) = None
   \<and> requesting (workers (snd (handle_taskpull_request w0 2 pool_a)) w0) = 1
   \<and> responses (w_transport (workers (snd (handle_taskpull_request w0 2 pool_a)) w0)) =
        [Message_make TaskSending (TaskData [task_a])]"
proof -
  let ?stop = "Pool_init cfg3 STOPPING"
  let ?s' = "snd (handle_taskpull_request w0 2 pool_a)"
  have h1: "status ?stop \<noteq> STARTED" by (simp add: Pool_init_def)
  from handle_taskpull_request_spec [of ?stop w0 2] h1
  have c1: "handle_taskpull_request w0 2 ?stop =
        (None, upd_worker w0 (\<lambda>wk. Worker_respond (wk\<lparr>requesting := 2\<rparr>) (Message_make Ack NoData)) ?stop)"
    by blast
  have hq: "queued_ok pool_a"
    by (simp add: queued_ok_def add_def Executor_add_def Pool_init_def)
  note inst = handle_taskpull_request_spec [of pool_a w0 2]
  from inst hq have c2: "fst (handle_taskpull_request w0 2 pool_a) = None" by blast
  then have eq: "handle_taskpull_request w0 2 pool_a = (None, ?s')"
    by (simp add: prod_eq_iff)
  have st: "status pool_a = STARTED"
    by (simp add: add_def Executor_add_def Pool_init_def)
  have r0: "responses (w_transport (workers pool_a w0)) = []"
    by (simp add: add_def Executor_add_def Pool_init_def Worker_init_def Transport_init_def)
  from inst eq st obtain batch s1 where
    p: "pull_loop w0 (nat 2) [] pool_a = (Inr batch, s1)"
    and b: "batch \<noteq> [] \<longrightarrow>
              responses (w_transport (workers ?s' w0)) =
                responses (w_transport (workers pool_a w0)) @ [Message_make TaskSending (TaskData batch)]
              \<and> requesting (workers ?s' w0) = 2 - int (length batch)"
    by blast
  from p pool_a_pull have batch: "batch = [task_a]" by simp
  from b batch r0 have c3: "requesting (workers ?s' w0) = 1"
    and c4: "responses (w_transport (workers ?s' w0)) = [Message_make TaskSending (TaskData [task_a])]"
    by simp_all
  from h1 c1 hq c2 c3 c4 show ?thesis by blast
qed

subsection \<open>The TaskResults handler\<close>

lemma deassign_simps [simp]:
  "cfg (deassign w now u s) = cfg s"
  "status (deassign w now u s) = status s"
  "input (deassign w now u s) = input s"
  "ongoing (deassign w now u s) = ongoing s"
  "unassigned (deassign w now u s) = unassigned s"
  "results (deassign w now u s) = results s"
  "task_assign_cnt (deassign w now u s) = task_assign_cnt s"
  "should_reschedule (deassign w now u s) = should_reschedule s"
  "workers (deassign w now u s) =
     (workers s)(w := (workers s w)\<lparr>assigned := assigned (workers s w) - {u}\<rparr>)"
  "workers_last_result (deassign w now u s) =
     (if workers_last_result s w = None then (workers_last_result s)(w \<mapsto> now)
      else workers_last_result s)"
  by (simp_all add: deassign_def Let_def)

lemma record_result_cases:
  "record_result u r s = (e, s') \<Longrightarrow>
     cfg s' = cfg s \<and> status s' = status s \<and> input s' = input s
     \<and> unassigned s' = unassigned s \<and> task_assign_cnt s' = task_assign_cnt s
     \<and> workers s' = workers s \<and> workers_last_result s' = workers_last_result s
     \<and> should_reschedule s' = should_reschedule s
     \<and> (e = None \<longrightarrow> print_test_result r = None \<and> results s' = (results s)(u \<mapsto> r)
                     \<and> u \<in> set (ongoing s) \<and> ongoing s' = remove1 u (ongoing s))
     \<and> (ongoing s' = ongoing s \<or> ongoing s' = remove1 u (ongoing s))
     \<and> (results s' = results s \<or> results s' = (results s)(u \<mapsto> r))"
  by (auto simp: record_result_def Let_def split: if_splits option.splits)

lemma results_step_frame:
  "results_step w now r s = (e, s') \<Longrightarrow>
     cfg s' = cfg s \<and> status s' = status s \<and> input s' = input s
     \<and> task_assign_cnt s' = task_assign_cnt s
     \<and> should_reschedule s' = should_reschedule s
     \<and> (\<forall>v. w_transport (workers s' v) = w_transport (workers s v))
     \<and> (\<forall>v. requesting (workers s' v) = requesting (workers s v))"
  by (auto simp: results_step_def Let_def split: if_splits option.splits
           dest!: record_result_cases)

lemma results_loop_frame:
  "results_loop w now data s = (e, s') \<Longrightarrow>
     cfg s' = cfg s \<and> status s' = status s \<and> input s' = input s
     \<and> task_assign_cnt s' = task_assign_cnt s
     \<and> should_reschedule s' = should_reschedule s
     \<and> (\<forall>v. w_transport (workers s' v) = w_transport (workers s v))
     \<and> (\<forall>v. requesting (workers s' v) = requesting (workers s v))"
proof (induction data arbitrary: s)
  case Nil
  then show ?case by simp
next
  case (Cons r rs)
  obtain e1 s1 where st: "results_step w now r s = (e1, s1)"
    by (cases "results_step w now r s") auto
  note f1 = results_step_frame [OF st]
  show ?case
  proof (cases e1)
    case None
    with st Cons.prems have "results_loop w now rs s1 = (e, s')" by simp
    from Cons.IH [OF this] f1 show ?thesis by simp
  next
    case (Some x)
    with st Cons.prems have "s' = s1" by simp
    with f1 show ?thesis by simp
  qed
qed

lemma results_step_spec:
  assumes "results_step w now r self = (None, s')"
  shows "task_uid (tr_task r) \<notin> assigned (workers s' w)
     \<and> (if should_reschedule self (pool_state.truncate (deassign w now (task_uid (tr_task r)) self)) r
            \<and> (\<exists>c. task_assign_cnt self (task_uid (tr_task r)) = Some c
                     \<and> c < task_retries_limit (cfg self))
         then unassigned s' = unassigned self @ [task_uid (tr_task r)]
              \<and> results s' = results self \<and> ongoing s' = ongoing self
         else unassigned s' = unassigned self
              \<and> results s' = (results self)(task_uid (tr_task r) \<mapsto> r)
              \<and> ongoing s' = remove1 (task_uid (tr_task r)) (ongoing self))"
  using assms
  by (auto simp: results_step_def Let_def split: if_splits option.splits
           dest!: record_result_cases)

lemma results_step_total:
  assumes "results_ok w (r # rs) s"
  shows "\<exists>s1. results_step w now r s = (None, s1) \<and> results_ok w rs s1"
proof -
  let ?u = "task_uid (tr_task r)"
  let ?s2 = "deassign w now ?u s"
  from assms have a: "?u \<in> assigned (workers s w)" and o: "?u \<in> set (ongoing s)"
    and c: "?u \<in> dom (task_assign_cnt s)" and i: "?u \<in> dom (input s)"
    and d: "distinct (map (\<lambda>r. task_uid (tr_task r)) rs)"
    and d0: "?u \<notin> (\<lambda>r. task_uid (tr_task r)) ` set rs"
    and pr: "print_test_result r = None"
    and rest: "\<forall>x \<in> set rs. task_uid (tr_task x) \<in> assigned (workers s w)
           \<and> task_uid (tr_task x) \<in> set (ongoing s)
           \<and> task_uid (tr_task x) \<in> dom (task_assign_cnt s)
           \<and> task_uid (tr_task x) \<in> dom (input s)
           \<and> print_test_result x = None"
    by (auto simp: results_ok_def)
  from d0 have n: "\<forall>x \<in> set rs. task_uid (tr_task x) \<noteq> ?u"
    by (auto simp: image_iff)
  obtain e s1 where st: "results_step w now r s = (e, s1)"
    by (cases "results_step w now r s") auto
  from st a o c i pr have e: "e = None"
    by (auto simp: results_step_def Let_def record_result_def split: if_splits option.splits)
  from st a have w1: "assigned (workers s1 w) = assigned (workers s w) - {?u}"
    by (auto simp: results_step_def Let_def split: if_splits option.splits
             dest!: record_result_cases)
  from st a have o1: "ongoing s1 = ongoing s \<or> ongoing s1 = remove1 ?u (ongoing s)"
    by (auto simp: results_step_def Let_def split: if_splits option.splits
             dest!: record_result_cases)
  from results_step_frame [OF st] have f: "task_assign_cnt s1 = task_assign_cnt s"
    "input s1 = input s" by simp_all
  have "results_ok w rs s1"
    unfolding results_ok_def
  proof (intro conjI ballI)
    show "distinct (map (\<lambda>r. task_uid (tr_task r)) rs)" by (rule d)
  next
    fix x assume x: "x \<in> set rs"
    with n have ne: "task_uid (tr_task x) \<noteq> ?u" by blast
    from rest x have rx: "task_uid (tr_task x) \<in> assigned (workers s w)"
      "task_uid (tr_task x) \<in> set (ongoing s)"
      "task_uid (tr_task x) \<in> dom (task_assign_cnt s)"
      "task_uid (tr_task x) \<in> dom (input s)"
      "print_test_result x = None" by blast+
    show "print_test_result x = None" by (rule rx(5))
    show "task_uid (tr_task x) \<in> assigned (workers s1 w)" using rx(1) ne w1 by simp
    show "task_uid (tr_task x) \<in> set (ongoing s1)" using rx(2) ne o1 by auto
    show "task_uid (tr_task x) \<in> dom (task_assign_cnt s1)" using rx(3) f by simp
    show "task_uid (tr_task x) \<in> dom (input s1)" using rx(4) f by simp
  qed
  with st e show ?thesis by simp
qed

lemma results_loop_total:
  "results_ok w data s \<Longrightarrow> fst (results_loop w now data s) = None"
proof (induction data arbitrary: s)
  case Nil
  then show ?case by simp
next
  case (Cons r rs)
  from results_step_total [OF Cons.prems, of now] obtain s1 where
    st: "results_step w now r s = (None, s1)" and ok: "results_ok w rs s1" by blast
  from Cons.IH [OF ok] st show ?case by simp
qed

lemma handle_taskresults_total:
  assumes "results_ok w data s"
  shows "fst (handle_taskresults w data now s) = None"
  using results_loop_total [OF assms, of now]
  by (cases "results_loop w now data s") (simp add: handle_taskresults_def)

lemma results_step_effect:
  assumes "results_step w now r s = (None, s')"
  shows "task_uid (tr_task r) \<in> assigned (workers s w)
     \<and> assigned (workers s' w) = assigned (workers s w) - {task_uid (tr_task r)}
     \<and> ((unassigned s' = unassigned s @ [task_uid (tr_task r)] \<and> results s' = results s)
          \<or> (unassigned s' = unassigned s
               \<and> results s' = (results s)(task_uid (tr_task r) \<mapsto> r)))"
  using assms
  by (auto simp: results_step_def Let_def split: if_splits option.splits
           dest!: record_result_cases)

lemma results_loop_effect:
  "results_loop w now data s = (None, s') \<Longrightarrow>
     distinct (map (\<lambda>r. task_uid (tr_task r)) data)
     \<and> (\<forall>x \<in> set data. task_uid (tr_task x) \<in> assigned (workers s w))
     \<and> assigned (workers s' w) =
          assigned (workers s w) - (\<lambda>r. task_uid (tr_task r)) ` set data
     \<and> set (unassigned s) \<subseteq> set (unassigned s')
     \<and> (\<forall>u. u \<notin> (\<lambda>r. task_uid (tr_task r)) ` set data \<longrightarrow> results s' u = results s u)
     \<and> (\<forall>x \<in> set data.
           (task_uid (tr_task x) \<in> set (unassigned s')
              \<and> results s' (task_uid (tr_task x)) = results s (task_uid (tr_task x)))
           \<or> results s' (task_uid (tr_task x)) = Some x)"
proof (induction data arbitrary: s)
  case Nil
  then show ?case by simp
next
  case (Cons r rs)
  let ?uid = "\<lambda>r. task_uid (tr_task r)"
  obtain e1 s1 where st: "results_step w now r s = (e1, s1)"
    by (cases "results_step w now r s") auto
  with Cons.prems have e1: "e1 = None" and l: "results_loop w now rs s1 = (None, s')"
    by (cases e1; simp)+
  note eff = results_step_effect [OF st [unfolded e1]]
  from eff have a: "?uid r \<in> assigned (workers s w)"
    and a1: "assigned (workers s1 w) = assigned (workers s w) - {?uid r}"
    and alt: "(unassigned s1 = unassigned s @ [?uid r] \<and> results s1 = results s)
          \<or> (unassigned s1 = unassigned s \<and> results s1 = (results s)(?uid r \<mapsto> r))"
    by blast+
  note ih = Cons.IH [OF l]
  from ih have d: "distinct (map ?uid rs)"
    and m: "\<forall>x \<in> set rs. ?uid x \<in> assigned (workers s1 w)"
    and a': "assigned (workers s' w) = assigned (workers s1 w) - ?uid ` set rs"
    and un: "set (unassigned s1) \<subseteq> set (unassigned s')"
    and fr: "\<forall>u. u \<notin> ?uid ` set rs \<longrightarrow> results s' u = results s1 u"
    and each: "\<forall>x \<in> set rs.
           (?uid x \<in> set (unassigned s') \<and> results s' (?uid x) = results s1 (?uid x))
           \<or> results s' (?uid x) = Some x"
    by blast+
  from m a1 have notin: "?uid r \<notin> ?uid ` set rs" by auto
  from m a1 have m0: "\<forall>x \<in> set rs. ?uid x \<in> assigned (workers s w)" by auto
  from alt have un0: "set (unassigned s) \<subseteq> set (unassigned s1)" by auto
  from alt have fr0: "\<forall>u. u \<noteq> ?uid r \<longrightarrow> results s1 u = results s u" by auto
  have c1: "distinct (map ?uid (r # rs))" using d notin by simp
  have c2: "\<forall>x \<in> set (r # rs). ?uid x \<in> assigned (workers s w)" using a m0 by simp
  have c3: "assigned (workers s' w) = assigned (workers s w) - ?uid ` set (r # rs)"
    using a' a1 by auto
  have c4: "set (unassigned s) \<subseteq> set (unassigned s')" using un0 un by blast
  have c5: "\<forall>u. u \<notin> ?uid ` set (r # rs) \<longrightarrow> results s' u = results s u"
    using fr fr0 by simp
  have hd: "(?uid r \<in> set (unassigned s') \<and> results s' (?uid r) = results s (?uid r))
           \<or> results s' (?uid r) = Some r"
  proof -
    from fr notin have k: "results s' (?uid r) = results s1 (?uid r)" by blast
    from alt show ?thesis
    proof
      assume "unassigned s1 = unassigned s @ [?uid r] \<and> results s1 = results s"
      with un k show ?thesis by auto
    next
      assume "unassigned s1 = unassigned s \<and> results s1 = (results s)(?uid r \<mapsto> r)"
      with k show ?thesis by simp
    qed
  qed
  have tl: "\<forall>x \<in> set rs.
           (?uid x \<in> set (unassigned s') \<and> results s' (?uid x) = results s (?uid x))
           \<or> results s' (?uid x) = Some x"
  proof
    fix x assume x: "x \<in> set rs"
    with notin have "?uid x \<noteq> ?uid r" by (auto simp: image_iff)
    with fr0 have "results s1 (?uid x) = results s (?uid x)" by blast
    with each x show "(?uid x \<in> set (unassigned s') \<and> results s' (?uid x) = results s (?uid x))
           \<or> results s' (?uid x) = Some x" by auto
  qed
  have c6: "\<forall>x \<in> set (r # rs).
           (?uid x \<in> set (unassigned s') \<and> results s' (?uid x) = results s (?uid x))
           \<or> results s' (?uid x) = Some x"
    using hd tl by simp
  from c1 c2 c3 c4 c5 c6 show ?case by blast
qed

lemma handle_taskresults_Cons:
  "handle_taskresults w (r # rs) now s =
     (case results_step w now r s of
        (Some e, s1) \<Rightarrow> (Some e, s1)
      | (None, s1) \<Rightarrow> handle_taskresults w rs now s1)"
  by (cases "results_step w now r s"; cases "fst (results_step w now r s)")
     (simp_all add: handle_taskresults_def)

text \<open>
  C5: the handler processes the results of a message in order, one iteration each,
  and stops at the first iteration that raises. When an iteration has processed a
  task result for \<open>uid\<close>, the uid is no longer in \<open>worker.assigned\<close>; if
  \<open>should_reschedule(pool, result)\<close> holds and \<open>task_assign_cnt[uid] <
  task_retries_limit\<close>, the uid was appended to \<open>unassigned\<close> and \<open>results\<close> and
  \<open>ongoing\<close> are as before; in every other case \<open>unassigned\<close> is as before,
  \<open>results[uid]\<close> is the result and one occurrence of the uid left \<open>ongoing\<close>. When the
  handler returns, every entry of the message was processed: the uids were
  distinct and assigned to the worker, all of them have left \<open>worker.assigned\<close>, each
  is either back in \<open>unassigned\<close> with its \<open>results\<close> entry untouched or has its own
  result in \<open>results\<close>, and \<open>Ack\<close> is the response appended to the worker's transport.
  The handler returns when the results are for distinct uids that are assigned to the
  worker, ongoing, counted and in \<open>input\<close>, and print without an error.
\<close>

theorem handle_taskresults_spec:
  "(\<forall>s'. results_step w now r self = (None, s') \<longrightarrow>
      task_uid (tr_task r) \<notin> assigned (workers s' w)
      \<and> (if should_reschedule self (pool_state.truncate (deassign w now (task_uid (tr_task r)) self)) r
             \<and> (\<exists>c. task_assign_cnt self (task_uid (tr_task r)) = Some c
                      \<and> c < task_retries_limit (cfg self))
          then unassigned s' = unassigned self @ [task_uid (tr_task r)]
               \<and> results s' = results self \<and> ongoing s' = ongoing self
          else unassigned s' = unassigned self
               \<and> results s' = (results self)(task_uid (tr_task r) \<mapsto> r)
               \<and> ongoing s' = remove1 (task_uid (tr_task r)) (ongoing self)))
   \<and> handle_taskresults w [] now self =
        (None, upd_worker w (\<lambda>wk. Worker_respond wk (Message_make Ack NoData)) self)
   \<and> handle_taskresults w (r # rs) now self =
        (case results_step w now r self of
           (Some e, s1) \<Rightarrow> (Some e, s1)
         | (None, s1) \<Rightarrow> handle_taskresults w rs now s1)
   \<and> (\<forall>s'. handle_taskresults w data now self = (None, s') \<longrightarrow>
        distinct (map (\<lambda>x. task_uid (tr_task x)) data)
        \<and> (\<forall>x \<in> set data. task_uid (tr_task x) \<in> assigned (workers self w))
        \<and> assigned (workers s' w) =
             assigned (workers self w) - (\<lambda>x. task_uid (tr_task x)) ` set data
        \<and> (\<forall>x \<in> set data.
              (task_uid (tr_task x) \<in> set (unassigned s')
                 \<and> results s' (task_uid (tr_task x)) = results self (task_uid (tr_task x)))
              \<or> results s' (task_uid (tr_task x)) = Some x)
        \<and> responses (w_transport (workers s' w)) =
             responses (w_transport (workers self w)) @ [Message_make Ack NoData])
   \<and> (results_ok w data self \<longrightarrow> fst (handle_taskresults w data now self) = None)"
proof (intro conjI allI impI)
  fix s' assume "results_step w now r self = (None, s')"
  from results_step_spec [OF this]
  show "task_uid (tr_task r) \<notin> assigned (workers s' w)"
    and "if should_reschedule self (pool_state.truncate (deassign w now (task_uid (tr_task r)) self)) r
             \<and> (\<exists>c. task_assign_cnt self (task_uid (tr_task r)) = Some c
                      \<and> c < task_retries_limit (cfg self))
          then unassigned s' = unassigned self @ [task_uid (tr_task r)]
               \<and> results s' = results self \<and> ongoing s' = ongoing self
          else unassigned s' = unassigned self
               \<and> results s' = (results self)(task_uid (tr_task r) \<mapsto> r)
               \<and> ongoing s' = remove1 (task_uid (tr_task r)) (ongoing self)"
    by blast+
next
  show "handle_taskresults w [] now self =
        (None, upd_worker w (\<lambda>wk. Worker_respond wk (Message_make Ack NoData)) self)"
    by (simp add: handle_taskresults_def)
next
  show "handle_taskresults w (r # rs) now self =
        (case results_step w now r self of
           (Some e, s1) \<Rightarrow> (Some e, s1)
         | (None, s1) \<Rightarrow> handle_taskresults w rs now s1)"
    by (rule handle_taskresults_Cons)
next
  assume "results_ok w data self"
  then show "fst (handle_taskresults w data now self) = None"
    by (rule handle_taskresults_total)
next
  fix s' assume h: "handle_taskresults w data now self = (None, s')"
  obtain e s1 where l: "results_loop w now data self = (e, s1)"
    by (cases "results_loop w now data self") auto
  with h have e: "e = None"
    and s': "s' = upd_worker w (\<lambda>wk. Worker_respond wk (Message_make Ack NoData)) s1"
    by (auto simp: handle_taskresults_def split: option.splits)
  note eff = results_loop_effect [OF l [unfolded e]]
  from eff show "distinct (map (\<lambda>x. task_uid (tr_task x)) data)" by blast
  from eff show "\<forall>x \<in> set data. task_uid (tr_task x) \<in> assigned (workers self w)" by blast
  from eff have "assigned (workers s1 w) =
             assigned (workers self w) - (\<lambda>x. task_uid (tr_task x)) ` set data" by blast
  with s' show "assigned (workers s' w) =
             assigned (workers self w) - (\<lambda>x. task_uid (tr_task x)) ` set data"
    by (simp add: Worker_respond_def)
  from eff have "\<forall>x \<in> set data.
              (task_uid (tr_task x) \<in> set (unassigned s1)
                 \<and> results s1 (task_uid (tr_task x)) = results self (task_uid (tr_task x)))
              \<or> results s1 (task_uid (tr_task x)) = Some x" by blast
  with s' show "\<forall>x \<in> set data.
              (task_uid (tr_task x) \<in> set (unassigned s')
                 \<and> results s' (task_uid (tr_task x)) = results self (task_uid (tr_task x)))
              \<or> results s' (task_uid (tr_task x)) = Some x" by simp
  from results_loop_frame [OF l]
  have "w_transport (workers s1 w) = w_transport (workers self w)" by blast
  with s' show "responses (w_transport (workers s' w)) =
             responses (w_transport (workers self w)) @ [Message_make Ack NoData]"
    by (simp add: Worker_respond_def respond_def)
qed

lemma pool_a1_fields:
  "status pool_a1 = STARTED"
  "cfg pool_a1 = cfg3"
  "input pool_a1 ''a'' = Some task_a"
  "ongoing pool_a1 = [''a'']"
  "unassigned pool_a1 = []"
  "results pool_a1 = Map.empty"
  "task_assign_cnt pool_a1 ''a'' = Some 1"
  "assigned (workers pool_a1 w0) = {''a''}"
  "workers_last_result pool_a1 = Map.empty"
  "should_reschedule pool_a1 = default_check_reschedule"
  by (simp_all add: handle_taskpull_request_def Let_def numeral_2_eq_2 add_def
        Executor_add_def Pool_init_def Worker_init_def Worker_respond_def)

lemma pool_a1_results_ok: "results_ok w0 [result_a] pool_a1"
  by (simp add: results_ok_def pool_a1_fields dom_def print_test_result_def)

lemma pool_a1_custom_fields:
  "cfg (set_reschedule_check (\<lambda>p r. True) pool_a1) = cfg3"
  "task_assign_cnt (set_reschedule_check (\<lambda>p r. True) pool_a1) ''a'' = Some 1"
  "assigned (workers (set_reschedule_check (\<lambda>p r. True) pool_a1) w0) = {''a''}"
  "unassigned (set_reschedule_check (\<lambda>p r. True) pool_a1) = []"
  "should_reschedule (set_reschedule_check (\<lambda>p r. True) pool_a1) = (\<lambda>p r. True)"
  by (simp_all add: set_reschedule_check_def pool_a1_fields)

lemma pool_a1_custom_step:
  "fst (results_step w0 1 result_a (set_reschedule_check (\<lambda>p r. True) pool_a1)) = None"
  by (simp add: results_step_def Let_def pool_a1_custom_fields)

theorem handle_taskresults_spec_witness:
  "results_ok w0 [result_a] pool_a1
   \<and> fst (handle_taskresults w0 [result_a] 1 pool_a1) = None
   \<and> responses (w_transport (workers (snd (handle_taskresults w0 [result_a] 1 pool_a1)) w0))
       = responses (w_transport (workers pool_a1 w0)) @ [Message_make Ack NoData]
   \<and> assigned (workers (snd (handle_taskresults w0 [result_a] 1 pool_a1)) w0) = {}
   \<and> results (snd (handle_taskresults w0 [result_a] 1 pool_a1)) ''a'' = Some result_a
   \<and> fst (results_step w0 1 result_a pool_a1) = None
   \<and> ''a'' \<notin> assigned (workers (snd (results_step w0 1 result_a pool_a1)) w0)
   \<and> results (snd (results_step w0 1 result_a pool_a1)) ''a'' = Some result_a
   \<and> ongoing (snd (results_step w0 1 result_a pool_a1)) = []
   \<and> unassigned (snd (results_step w0 1 result_a pool_a1)) = []
   \<and> fst (results_step w0 1 result_a (set_reschedule_check (\<lambda>p r. True) pool_a1)) = None
   \<and> unassigned (snd (results_step w0 1 result_a (set_reschedule_check (\<lambda>p r. True) pool_a1)))
       = [''a'']
   \<and> results (snd (results_step w0 1 result_a (set_reschedule_check (\<lambda>p r. True) pool_a1)))
       = results (set_reschedule_check (\<lambda>p r. True) pool_a1)"
proof -
  let ?h = "handle_taskresults w0 [result_a] 1 pool_a1"
  let ?st = "results_step w0 1 result_a pool_a1"
  let ?pc = "set_reschedule_check (\<lambda>p r. True) pool_a1"
  let ?sc = "results_step w0 1 result_a ?pc"
  note inst = handle_taskresults_spec [of w0 1 result_a pool_a1 "[]" "[result_a]"]
  note instc = handle_taskresults_spec [of w0 1 result_a ?pc "[]" "[]"]
  have ok: "results_ok w0 [result_a] pool_a1" by (rule pool_a1_results_ok)
  from inst ok have c1: "fst ?h = None" by blast
  then have eh: "?h = (None, snd ?h)" by (simp add: prod_eq_iff)
  from inst eh have c2: "responses (w_transport (workers (snd ?h) w0))
       = responses (w_transport (workers pool_a1 w0)) @ [Message_make Ack NoData]"
    and c2a: "assigned (workers (snd ?h) w0) =
       assigned (workers pool_a1 w0) - (\<lambda>x. task_uid (tr_task x)) ` set [result_a]"
    and c2b: "\<forall>x \<in> set [result_a].
              (task_uid (tr_task x) \<in> set (unassigned (snd ?h))
                 \<and> results (snd ?h) (task_uid (tr_task x)) = results pool_a1 (task_uid (tr_task x)))
              \<or> results (snd ?h) (task_uid (tr_task x)) = Some x"
    by blast+
  from c2a have c2a': "assigned (workers (snd ?h) w0) = {}" by (simp add: pool_a1_fields)
  have c3: "fst ?st = None"
    by (simp add: results_step_def Let_def pool_a1_fields default_check_reschedule_def
          record_result_def print_test_result_def)
  then have e3: "?st = (None, snd ?st)" by (simp add: prod_eq_iff)
  have nd: "\<not> should_reschedule pool_a1
       (pool_state.truncate (deassign w0 1 (task_uid (tr_task result_a)) pool_a1)) result_a"
    by (simp add: pool_a1_fields default_check_reschedule_def)
  from inst e3 nd have c4: "task_uid (tr_task result_a) \<notin> assigned (workers (snd ?st) w0)"
    and c5: "unassigned (snd ?st) = unassigned pool_a1
        \<and> results (snd ?st) = (results pool_a1)(task_uid (tr_task result_a) \<mapsto> result_a)
        \<and> ongoing (snd ?st) = remove1 (task_uid (tr_task result_a)) (ongoing pool_a1)"
    by auto
  from c4 have c4': "''a'' \<notin> assigned (workers (snd ?st) w0)" by simp
  from c5 have c5': "results (snd ?st) ''a'' = Some result_a" "ongoing (snd ?st) = []"
    "unassigned (snd ?st) = []"
    by (simp_all add: pool_a1_fields)
  from inst have "?h = (case ?st of (Some e, s1) \<Rightarrow> (Some e, s1)
         | (None, s1) \<Rightarrow> handle_taskresults w0 [] 1 s1)" by blast
  with e3 have "?h = handle_taskresults w0 [] 1 (snd ?st)"
    by (metis (no_types, lifting) case_prod_conv option.simps(4))
  moreover from handle_taskresults_spec [of w0 1 result_a "snd ?st" "[]" "[]"]
  have "handle_taskresults w0 [] 1 (snd ?st) =
      (None, upd_worker w0 (\<lambda>wk. Worker_respond wk (Message_make Ack NoData)) (snd ?st))"
    by blast
  ultimately have "results (snd ?h) = results (snd ?st)" by simp
  with c5' have c2b': "results (snd ?h) ''a'' = Some result_a" by simp
  have c6: "fst ?sc = None" by (rule pool_a1_custom_step)
  then have e6: "?sc = (None, snd ?sc)" by (simp add: prod_eq_iff)
  have yes: "should_reschedule ?pc
       (pool_state.truncate (deassign w0 1 (task_uid (tr_task result_a)) ?pc)) result_a
     \<and> (\<exists>c. task_assign_cnt ?pc (task_uid (tr_task result_a)) = Some c
             \<and> c < task_retries_limit (cfg ?pc))"
    by (simp add: pool_a1_custom_fields)
  from instc e6 yes have c7: "unassigned (snd ?sc) = unassigned ?pc @ [task_uid (tr_task result_a)]
      \<and> results (snd ?sc) = results ?pc \<and> ongoing (snd ?sc) = ongoing ?pc"
    by auto
  then have c7': "unassigned (snd ?sc) = [''a'']" "results (snd ?sc) = results ?pc"
    by (simp_all add: pool_a1_custom_fields)
  from ok c1 c2 c2a' c2b' c3 c4' c5' c6 c7' show ?thesis by blast
qed

subsection \<open>The bound on assign counts\<close>

lemma add_frame:
  "cfg (snd (add e u s)) = cfg s \<and> status (snd (add e u s)) = status s
   \<and> task_assign_cnt (snd (add e u s)) = task_assign_cnt s
   \<and> workers_last_result (snd (add e u s)) = workers_last_result s
   \<and> should_reschedule (snd (add e u s)) = should_reschedule s"
  by (cases e) (simp_all add: add_def Executor_add_def)

lemma handle_taskpull_request_frame:
  "cfg (snd (handle_taskpull_request w n s)) = cfg s
   \<and> status (snd (handle_taskpull_request w n s)) = status s
   \<and> workers_last_result (snd (handle_taskpull_request w n s)) = workers_last_result s
   \<and> should_reschedule (snd (handle_taskpull_request w n s)) = should_reschedule s"
proof -
  obtain r s1 where p: "pull_loop w (nat n) [] s = (r, s1)"
    by (cases "pull_loop w (nat n) [] s") auto
  from pull_loop_frame [OF p] show ?thesis
    using p by (cases r) (simp_all add: handle_taskpull_request_def Let_def)
qed

lemma handle_taskpull_request_cnt_bounded:
  assumes "0 \<le> task_retries_limit (cfg s)" and "cnt_bounded s"
  shows "cnt_bounded (snd (handle_taskpull_request w n s))"
proof -
  obtain r s1 where p: "pull_loop w (nat n) [] s = (r, s1)"
    by (cases "pull_loop w (nat n) [] s") auto
  from pull_loop_cnt_bounded [OF assms p] have "cnt_bounded s1" .
  with assms(2) p show ?thesis
    by (cases r) (simp_all add: handle_taskpull_request_def Let_def cnt_bounded_def)
qed

lemma handle_taskresults_frame:
  "cfg (snd (handle_taskresults w d now s)) = cfg s
   \<and> status (snd (handle_taskresults w d now s)) = status s
   \<and> task_assign_cnt (snd (handle_taskresults w d now s)) = task_assign_cnt s
   \<and> should_reschedule (snd (handle_taskresults w d now s)) = should_reschedule s"
proof -
  obtain e s1 where l: "results_loop w now d s = (e, s1)"
    by (cases "results_loop w now d s") auto
  from results_loop_frame [OF l] show ?thesis
    using l by (cases e) (simp_all add: handle_taskresults_def)
qed

lemma pool_step_cnt_bounded:
  assumes "0 \<le> task_retries_limit (cfg s)" and "cnt_bounded s"
  shows "cnt_bounded (pool_step x s) \<and> cfg (pool_step x s) = cfg s"
proof (cases x)
  case (Add e u)
  with assms(2) add_frame [of e u s] show ?thesis by (simp add: cnt_bounded_def)
next
  case (Pull w n)
  with handle_taskpull_request_cnt_bounded [OF assms, of w n]
    handle_taskpull_request_frame [of w n s] show ?thesis by simp
next
  case (Results w d now)
  with assms(2) handle_taskresults_frame [of w d now s] show ?thesis
    by (simp add: cnt_bounded_def)
qed

lemma pool_run_cnt_bounded:
  "0 \<le> task_retries_limit (cfg s) \<Longrightarrow> cnt_bounded s \<Longrightarrow>
     cnt_bounded (pool_run steps s) \<and> cfg (pool_run steps s) = cfg s"
proof (induction steps arbitrary: s)
  case Nil
  then show ?case by (simp add: pool_run_def)
next
  case (Cons x xs)
  from pool_step_cnt_bounded [OF Cons.prems, of x]
  have b: "cnt_bounded (pool_step x s)" and c: "cfg (pool_step x s) = cfg s" by simp_all
  from Cons.IH [of "pool_step x s"] b c Cons.prems(1)
  show ?case by (simp add: pool_run_def)
qed

text \<open>
  C1, as claimed, fails for a negative \<open>task_retries_limit\<close> (the option accepts any
  \<open>int\<close>): with limit \<open>-1\<close>, after a task is added and a worker pulls, the handler has
  created the entry \<open>task_assign_cnt[uid] = 0\<close> before it discards the task, and \<open>0\<close>
  exceeds the limit.
\<close>

theorem assign_cnt_exceeds_negative_limit:
  "task_assign_cnt (pool_run [Add (TaskEntity task_a) ''a'', Pull w0 1] (Pool_init cfg_neg STARTED)) ''a''
     = Some 0
   \<and> task_retries_limit (cfg (pool_run [Add (TaskEntity task_a) ''a'', Pull w0 1]
        (Pool_init cfg_neg STARTED))) = - 1
   \<and> \<not> cnt_bounded (pool_run [Add (TaskEntity task_a) ''a'', Pull w0 1] (Pool_init cfg_neg STARTED))"
proof -
  let ?p = "pool_run [Add (TaskEntity task_a) ''a'', Pull w0 1] (Pool_init cfg_neg STARTED)"
  have c: "task_assign_cnt ?p ''a'' = Some 0"
    by (simp add: pool_run_def handle_taskpull_request_def Let_def add_def Executor_add_def
          Pool_init_def discard_task_def)
  have l: "task_retries_limit (cfg ?p) = - 1"
    by (simp add: pool_run_def handle_taskpull_request_def Let_def add_def Executor_add_def
          Pool_init_def discard_task_def)
  have n: "\<not> cnt_bounded ?p"
  proof
    assume "cnt_bounded ?p"
    with c have "0 \<le> task_retries_limit (cfg ?p)" unfolding cnt_bounded_def by blast
    with l show False by simp
  qed
  from c l n show ?thesis by blast
qed

text \<open>
  C1, amended: provided \<open>task_retries_limit \<ge> 0\<close>, the bound
  \<open>task_assign_cnt[uid] \<le> task_retries_limit\<close> for every uid is kept by every step
  (a submission, a \<open>TaskPullRequest\<close>, a \<open>TaskResults\<close>, whether or not the handler
  raises), and so holds after any sequence of steps on a new pool.
\<close>

theorem assign_cnt_bounded:
  "(0 \<le> task_retries_limit (cfg self) \<and> cnt_bounded self \<longrightarrow>
      cnt_bounded (pool_step x self) \<and> cfg (pool_step x self) = cfg self)
   \<and> (0 \<le> task_retries_limit c \<longrightarrow>
        (\<forall>u k. task_assign_cnt (pool_run steps (Pool_init c st)) u = Some k \<longrightarrow>
           k \<le> task_retries_limit c))"
proof (intro conjI impI allI)
  assume a: "0 \<le> task_retries_limit (cfg self) \<and> cnt_bounded self"
  then show "cnt_bounded (pool_step x self)" and "cfg (pool_step x self) = cfg self"
    using pool_step_cnt_bounded [of self x] by simp_all
next
  fix u k
  assume l: "0 \<le> task_retries_limit c"
    and k: "task_assign_cnt (pool_run steps (Pool_init c st)) u = Some k"
  have i: "cnt_bounded (Pool_init c st)" "cfg (Pool_init c st) = c"
    by (simp_all add: cnt_bounded_def Pool_init_def)
  from pool_run_cnt_bounded [of "Pool_init c st" steps] l i
  have "cnt_bounded (pool_run steps (Pool_init c st))"
    and "cfg (pool_run steps (Pool_init c st)) = c" by simp_all
  with k show "k \<le> task_retries_limit c" by (simp add: cnt_bounded_def)
qed

lemma pool_a_fields:
  "cfg pool_a = cfg3" "task_assign_cnt pool_a = Map.empty"
  by (simp_all add: add_def Executor_add_def Pool_init_def)

theorem assign_cnt_bounded_witness:
  "0 \<le> task_retries_limit (cfg pool_a) \<and> cnt_bounded pool_a
   \<and> cnt_bounded (pool_step (Pull w0 2) pool_a)
   \<and> 0 \<le> task_retries_limit cfg3
   \<and> task_assign_cnt (pool_run [Add (TaskEntity task_a) ''a'', Pull w0 2] (Pool_init cfg3 STARTED)) ''a''
       = Some 1
   \<and> 1 \<le> task_retries_limit cfg3"
proof -
  let ?steps = "[Add (TaskEntity task_a) ''a'', Pull w0 2]"
  have h1: "0 \<le> task_retries_limit (cfg pool_a)" by (simp add: pool_a_fields)
  have h2: "cnt_bounded pool_a" by (simp add: cnt_bounded_def pool_a_fields)
  from assign_cnt_bounded [of pool_a "Pull w0 2"] h1 h2
  have c1: "cnt_bounded (pool_step (Pull w0 2) pool_a)" by blast
  have h3: "0 \<le> task_retries_limit cfg3" by simp
  have e: "pool_run ?steps (Pool_init cfg3 STARTED) = pool_a1" by (simp add: pool_run_def)
  have k: "task_assign_cnt (pool_run ?steps (Pool_init cfg3 STARTED)) ''a'' = Some 1"
    unfolding e by (rule pool_a1_fields)
  from assign_cnt_bounded [of _ _ cfg3 ?steps STARTED] h3 k
  have c2: "1 \<le> task_retries_limit cfg3" by blast
  from h1 h2 c1 h3 k c2 show ?thesis by blast
qed

subsection \<open>The time of a worker's last result\<close>

lemma results_step_last_result:
  "results_step w now r s = (e, s') \<Longrightarrow>
     workers_last_result s' =
       (if task_uid (tr_task r) \<in> assigned (workers s w) \<and> workers_last_result s w = None
        then (workers_last_result s)(w \<mapsto> now) else workers_last_result s)"
  by (auto simp: results_step_def Let_def split: if_splits option.splits
           dest!: record_result_cases)

lemma results_loop_last_result_kept:
  "workers_last_result s v = Some t \<Longrightarrow>
     workers_last_result (snd (results_loop w now data s)) v = Some t"
proof (induction data arbitrary: s)
  case Nil
  then show ?case by simp
next
  case (Cons r rs)
  obtain e1 s1 where st: "results_step w now r s = (e1, s1)"
    by (cases "results_step w now r s") auto
  from results_step_last_result [OF st] Cons.prems
  have k: "workers_last_result s1 v = Some t" by auto
  show ?case
  proof (cases e1)
    case None
    with st Cons.IH [OF k] show ?thesis by simp
  next
    case (Some x)
    with st k show ?thesis by simp
  qed
qed

lemma handle_taskresults_last_result:
  "workers_last_result (snd (handle_taskresults w d now s)) =
     workers_last_result (snd (results_loop w now d s))"
  by (cases "results_loop w now d s"; cases "fst (results_loop w now d s)")
     (simp_all add: handle_taskresults_def)

lemma pool_step_last_result_kept:
  assumes "workers_last_result s v = Some t"
  shows "workers_last_result (pool_step x s) v = Some t"
proof (cases x)
  case (Add e u)
  with assms add_frame [of e u s] show ?thesis by simp
next
  case (Pull w n)
  with assms handle_taskpull_request_frame [of w n s] show ?thesis by simp
next
  case (Results w d now)
  with results_loop_last_result_kept [OF assms, of w now d] show ?thesis
    by (simp add: handle_taskresults_last_result)
qed

lemma pool_run_last_result_kept:
  "workers_last_result s v = Some t \<Longrightarrow> workers_last_result (pool_run steps s) v = Some t"
proof (induction steps arbitrary: s)
  case Nil
  then show ?case by (simp add: pool_run_def)
next
  case (Cons x xs)
  from Cons.IH [OF pool_step_last_result_kept [OF Cons.prems, of x]]
  show ?case by (simp add: pool_run_def)
qed

text \<open>
  C9, as claimed, fails: worker 0 pulls the tasks \<open>a\<close> and \<open>b\<close>, the result of \<open>a\<close> is
  handled at time 1 and the result of \<open>b\<close> at time 2. The second result is recorded,
  but \<open>workers_last_result\<close> of the worker is still 1, not the time 2 of the most
  recent result.
\<close>

theorem last_result_not_most_recent:
  "workers_last_result
     (pool_run [Add (TaskEntity task_a) ''a'', Add (TaskEntity task_b) ''b'', Pull w0 2,
                Results w0 [result_a] 1, Results w0 [result_b] 2] (Pool_init cfg3 STARTED)) w0
     = Some 1
   \<and> results
     (pool_run [Add (TaskEntity task_a) ''a'', Add (TaskEntity task_b) ''b'', Pull w0 2,
                Results w0 [result_a] 1, Results w0 [result_b] 2] (Pool_init cfg3 STARTED)) ''b''
     = Some result_b
   \<and> workers_last_result
     (pool_run [Add (TaskEntity task_a) ''a'', Add (TaskEntity task_b) ''b'', Pull w0 2,
                Results w0 [result_a] 1, Results w0 [result_b] 2] (Pool_init cfg3 STARTED)) w0
     \<noteq> Some 2"
  by (simp add: pool_run_def handle_taskpull_request_def handle_taskresults_def results_step_def
        deassign_def record_result_def print_test_result_def Let_def numeral_2_eq_2 add_def Executor_add_def
        Pool_init_def Worker_init_def Worker_respond_def upd_worker_def
        default_check_reschedule_def)

text \<open>
  C9, amended: \<open>workers_last_result[w]\<close> is the time of the first result handled from
  \<open>w\<close>. When \<open>w\<close> has no entry, handling a \<open>TaskResults\<close> message at time \<open>now\<close> whose
  first result is for a uid assigned to \<open>w\<close> stores \<open>now\<close>; once \<open>w\<close> has an entry, no
  later step changes it.
\<close>

theorem last_result_first_arrival:
  "(workers_last_result self w = None \<and> data \<noteq> []
      \<and> task_uid (tr_task (hd data)) \<in> assigned (workers self w) \<longrightarrow>
      workers_last_result (snd (handle_taskresults w data now self)) w = Some now)
   \<and> (workers_last_result self w = Some t \<longrightarrow>
        workers_last_result (pool_run steps self) w = Some t)"
proof (intro conjI impI)
  assume a: "workers_last_result self w = None \<and> data \<noteq> []
      \<and> task_uid (tr_task (hd data)) \<in> assigned (workers self w)"
  then obtain r rs where d: "data = r # rs" by (cases data) auto
  obtain e1 s1 where st: "results_step w now r self = (e1, s1)"
    by (cases "results_step w now r self") auto
  from results_step_last_result [OF st] a d
  have k: "workers_last_result s1 w = Some now" by simp
  have "workers_last_result (snd (results_loop w now data self)) w = Some now"
  proof (cases e1)
    case None
    with st d results_loop_last_result_kept [OF k, of w now rs] show ?thesis by simp
  next
    case (Some x)
    with st d k show ?thesis by simp
  qed
  then show "workers_last_result (snd (handle_taskresults w data now self)) w = Some now"
    by (simp add: handle_taskresults_last_result)
next
  assume "workers_last_result self w = Some t"
  then show "workers_last_result (pool_run steps self) w = Some t"
    by (rule pool_run_last_result_kept)
qed

theorem last_result_first_arrival_witness:
  "workers_last_result pool_a1 w0 = None
   \<and> [result_a] \<noteq> []
   \<and> task_uid (tr_task (hd [result_a])) \<in> assigned (workers pool_a1 w0)
   \<and> workers_last_result (snd (handle_taskresults w0 [result_a] 1 pool_a1)) w0 = Some 1
   \<and> workers_last_result
        (pool_run [Results w0 [result_b] 2] (snd (handle_taskresults w0 [result_a] 1 pool_a1))) w0
       = Some 1"
proof -
  let ?s1 = "snd (handle_taskresults w0 [result_a] 1 pool_a1)"
  have h1: "workers_last_result pool_a1 w0 = None" by (simp add: pool_a1_fields)
  have h2: "[result_a] \<noteq> []" by simp
  have h3: "task_uid (tr_task (hd [result_a])) \<in> assigned (workers pool_a1 w0)"
    by (simp add: pool_a1_fields)
  from last_result_first_arrival [of pool_a1 w0 "[result_a]" 1] h1 h2 h3
  have c1: "workers_last_result ?s1 w0 = Some 1" by blast
  from last_result_first_arrival [of ?s1 w0 _ _ 1 "[Results w0 [result_b] 2]"] c1
  have c2: "workers_last_result (pool_run [Results w0 [result_b] 2] ?s1) w0 = Some 1" by blast
  from h1 h2 h3 c1 c2 show ?thesis by blast
qed

subsection \<open>The default reschedule predicate\<close>

lemma pool_step_should_reschedule:
  "should_reschedule (pool_step x s) = should_reschedule s"
proof (cases x)
  case (Add e u)
  with add_frame [of e u s] show ?thesis by simp
next
  case (Pull w n)
  with handle_taskpull_request_frame [of w n s] show ?thesis by simp
next
  case (Results w d now)
  with handle_taskresults_frame [of w d now s] show ?thesis by simp
qed

lemma pool_run_should_reschedule:
  "should_reschedule (pool_run steps s) = should_reschedule s"
proof (induction steps arbitrary: s)
  case Nil
  show ?case by (simp add: pool_run_def)
next
  case (Cons x xs)
  from Cons.IH [of "pool_step x s"] pool_step_should_reschedule [of x s]
  show ?case by (simp add: pool_run_def)
qed

lemma results_step_default:
  assumes "should_reschedule s = default_check_reschedule"
    and "results_step w now r s = (e, s')"
  shows "unassigned s' = unassigned s
     \<and> (e = None \<longrightarrow> results s' = (results s)(task_uid (tr_task r) \<mapsto> r)
                     \<and> ongoing s' = remove1 (task_uid (tr_task r)) (ongoing s))"
  using assms
  by (auto simp: results_step_def Let_def default_check_reschedule_def
           split: if_splits dest!: record_result_cases)

lemma results_loop_default:
  "should_reschedule s = default_check_reschedule \<Longrightarrow>
   results_loop w now data s = (e, s') \<Longrightarrow>
     unassigned s' = unassigned s
     \<and> (e = None \<longrightarrow>
          results s' = fold (\<lambda>r m. m(task_uid (tr_task r) \<mapsto> r)) data (results s)
          \<and> ongoing s' = fold (\<lambda>r. remove1 (task_uid (tr_task r))) data (ongoing s))"
proof (induction data arbitrary: s)
  case Nil
  then show ?case by simp
next
  case (Cons r rs)
  obtain e1 s1 where st: "results_step w now r s = (e1, s1)"
    by (cases "results_step w now r s") auto
  note d1 = results_step_default [OF Cons.prems(1) st]
  from results_step_frame [OF st] Cons.prems(1)
  have sr: "should_reschedule s1 = default_check_reschedule" by simp
  show ?case
  proof (cases e1)
    case None
    with st Cons.prems(2) have l: "results_loop w now rs s1 = (e, s')" by simp
    from Cons.IH [OF sr l] d1 None show ?thesis by simp
  next
    case (Some x)
    with st Cons.prems(2) have "s' = s1" "e = Some x" by simp_all
    with d1 show ?thesis by simp
  qed
qed

lemma fold_upd_dom:
  "r \<in> set data \<Longrightarrow>
     task_uid (tr_task r) \<in> dom (fold (\<lambda>r m. m(task_uid (tr_task r) \<mapsto> r)) data m)"
proof (induction data arbitrary: m)
  case Nil
  then show ?case by simp
next
  case (Cons x xs)
  have keep: "\<And>k m. k \<in> dom m \<Longrightarrow>
      k \<in> dom (fold (\<lambda>r m. m(task_uid (tr_task r) \<mapsto> r)) xs m)"
    by (induction xs) auto
  show ?case
  proof (cases "r \<in> set xs")
    case True
    from Cons.IH [OF this] show ?thesis by simp
  next
    case False
    with Cons.prems have rx: "r = x" by simp
    show ?thesis unfolding rx fold_simps o_apply by (rule keep) simp
  qed
qed

text \<open>
  C10: a new pool has \<open>default_check_reschedule\<close> as its predicate, which is false for
  every pool and task result, and no step other than \<open>set_reschedule_check\<close> replaces
  it. With that predicate the \<open>TaskResults\<close> handler never changes \<open>unassigned\<close>, and
  when it returns every result of the message has been recorded: \<open>results[uid]\<close> is
  written and the uid removed from \<open>ongoing\<close>, entry by entry.
\<close>

theorem default_never_reschedules:
  "should_reschedule (Pool_init c st) = default_check_reschedule
   \<and> default_check_reschedule p r = False
   \<and> should_reschedule (pool_run steps (Pool_init c st)) = default_check_reschedule
   \<and> (should_reschedule self = default_check_reschedule \<longrightarrow>
        unassigned (snd (handle_taskresults w data now self)) = unassigned self
        \<and> (\<forall>s'. handle_taskresults w data now self = (None, s') \<longrightarrow>
             results s' = fold (\<lambda>r m. m(task_uid (tr_task r) \<mapsto> r)) data (results self)
             \<and> ongoing s' = fold (\<lambda>r. remove1 (task_uid (tr_task r))) data (ongoing self)
             \<and> (\<forall>r \<in> set data. task_uid (tr_task r) \<in> dom (results s'))))"
proof (intro conjI impI allI ballI)
  show i: "should_reschedule (Pool_init c st) = default_check_reschedule"
    by (simp add: Pool_init_def)
  show "default_check_reschedule p r = False"
    by (simp add: default_check_reschedule_def)
  show "should_reschedule (pool_run steps (Pool_init c st)) = default_check_reschedule"
    using i by (simp add: pool_run_should_reschedule)
next
  assume d: "should_reschedule self = default_check_reschedule"
  obtain e s1 where l: "results_loop w now data self = (e, s1)"
    by (cases "results_loop w now data self") auto
  from results_loop_default [OF d l]
  show "unassigned (snd (handle_taskresults w data now self)) = unassigned self"
    using l by (cases e) (simp_all add: handle_taskresults_def)
next
  fix s'
  assume d: "should_reschedule self = default_check_reschedule"
    and h: "handle_taskresults w data now self = (None, s')"
  obtain e s1 where l: "results_loop w now data self = (e, s1)"
    by (cases "results_loop w now data self") auto
  with h have e: "e = None"
    and s': "s' = upd_worker w (\<lambda>wk. Worker_respond wk (Message_make Ack NoData)) s1"
    by (auto simp: handle_taskresults_def split: option.splits)
  from results_loop_default [OF d l] e s'
  show res: "results s' = fold (\<lambda>r m. m(task_uid (tr_task r) \<mapsto> r)) data (results self)"
    and "ongoing s' = fold (\<lambda>r. remove1 (task_uid (tr_task r))) data (ongoing self)"
    by simp_all
  fix x assume "x \<in> set data"
  from fold_upd_dom [OF this, of "results self"] res
  show "task_uid (tr_task x) \<in> dom (results s')" by simp
qed

theorem default_never_reschedules_witness:
  "should_reschedule pool_a1 = default_check_reschedule
   \<and> fst (handle_taskresults w0 [result_a] 1 pool_a1) = None
   \<and> unassigned (snd (handle_taskresults w0 [result_a] 1 pool_a1)) = []
   \<and> results (snd (handle_taskresults w0 [result_a] 1 pool_a1)) ''a'' = Some result_a
   \<and> ongoing (snd (handle_taskresults w0 [result_a] 1 pool_a1)) = []
   \<and> ''a'' \<in> dom (results (snd (handle_taskresults w0 [result_a] 1 pool_a1)))"
proof -
  let ?h = "handle_taskresults w0 [result_a] 1 pool_a1"
  note inst = default_never_reschedules [of _ _ _ _ _ pool_a1 w0 "[result_a]" 1]
  have d: "should_reschedule pool_a1 = default_check_reschedule" by (rule pool_a1_fields)
  have c1: "fst ?h = None" by (rule handle_taskresults_total [OF pool_a1_results_ok])
  then have e: "?h = (None, snd ?h)" by (simp add: prod_eq_iff)
  from inst d have c2: "unassigned (snd ?h) = unassigned pool_a1" by blast
  from inst d e have c3: "results (snd ?h)
       = fold (\<lambda>r m. m(task_uid (tr_task r) \<mapsto> r)) [result_a] (results pool_a1)"
    and c4: "ongoing (snd ?h) = fold (\<lambda>r. remove1 (task_uid (tr_task r))) [result_a] (ongoing pool_a1)"
    and c5: "\<forall>r \<in> set [result_a]. task_uid (tr_task r) \<in> dom (results (snd ?h))"
    by blast+
  from c2 have c2': "unassigned (snd ?h) = []" by (simp add: pool_a1_fields)
  from c3 have c3': "results (snd ?h) ''a'' = Some result_a" by simp
  from c4 have c4': "ongoing (snd ?h) = []" by (simp add: pool_a1_fields)
  from c5 have c5': "''a'' \<in> dom (results (snd ?h))" by simp
  from d c1 c2' c3' c4' c5' show ?thesis by blast
qed

end
